theory Spec2Isabelle
  imports Main "HOL-Library.AList" "HOL-Library.Sublist"
begin

section \<open>Python strings\<close>

text \<open>
  Text is a list of characters, each a code point from U+0000 to U+00FF (\<open>CHR 0xA0\<close> is
  the no-break space). \<open>split_on c s\<close> is Python's \<^verbatim>\<open>s.split(c)\<close> for a
  one-character separator: one more segment than there are separators, empty segments kept.
\<close>

fun split_on :: "char \<Rightarrow> string \<Rightarrow> string list" where
  "split_on c [] = [[]]"
| "split_on c (x # xs) =
     (if x = c then [] # split_on c xs
      else (case split_on c xs of [] \<Rightarrow> [[x]] | seg # segs \<Rightarrow> (x # seg) # segs))"

text \<open>
  The characters \<^verbatim>\<open>str.strip()\<close> removes, which are those \<^verbatim>\<open>str.isspace\<close> holds of. Up
  to U+00FF they are twelve: space, tab, line feed, vertical tab, form feed, carriage
  return, the four separators U+001C to U+001F, next line (U+0085) and no-break space
  (U+00A0).
\<close>

definition is_space :: "char \<Rightarrow> bool" where
  "is_space c = (c \<in> set [CHR '' '', CHR 0x09, CHR 0x0A, CHR 0x0B, CHR 0x0C, CHR 0x0D,
                            CHR 0x1C, CHR 0x1D, CHR 0x1E, CHR 0x1F, CHR 0x85, CHR 0xA0])"

definition py_strip :: "string \<Rightarrow> string" where
  "py_strip s = rev (dropWhile is_space (rev (dropWhile is_space s)))"

definition startswith :: "string \<Rightarrow> string \<Rightarrow> bool" where
  "startswith s p = (take (length p) s = p)"

text \<open>
  What reading in text mode makes of line ends (\<^verbatim>\<open>newline=None\<close>, the default of
  \<^verbatim>\<open>open\<close> and of \<^verbatim>\<open>io.TextIOWrapper\<close>): a carriage return followed by a line feed, and
  a carriage return alone, are read as one line feed.
\<close>

fun universal_newlines :: "string \<Rightarrow> string" where
  "universal_newlines [] = []"
| "universal_newlines [c] = (if c = CHR 0x0D then [CHR 0x0A] else [c])"
| "universal_newlines (c # d # cs) =
     (if c = CHR 0x0D then
        (if d = CHR 0x0A then CHR 0x0A # universal_newlines cs
         else CHR 0x0A # universal_newlines (d # cs))
      else c # universal_newlines (d # cs))"

section \<open>Errors\<close>

type_synonym path = "string list"

text \<open>
  Every exception the module raises itself is a constructor named after its class and its
  message; \<open>Raised tag\<close> is an exception raised inside a collaborator (a format handler,
  the cache, the import machinery).
\<close>

datatype error =
    TypeError_not_exist path
  | ValueError_no_visible_root
  | ValueError_multiple_roots
  | ValueError_invalid_uuid string
  | ValueError_malformed_VERSION
  | ValueError_not_exist path
  | ValueError_not_archive path
  | ValueError_futuristic path string string
  | ValueError_unpack
  | FileExistsError
  | FileNotFoundError
  | NotADirectoryError
  | IsADirectoryError
  | UnicodeDecodeError
  | AssertionError
  | AttributeError
  | BadZipFile
  | KeyError
  | Raised string

section \<open>The VERSION resource\<close>

text \<open>\<^verbatim>\<open>_VERSION_TEMPLATE % (version, framework_version)\<close>.\<close>

definition VERSION_TEMPLATE :: "string \<Rightarrow> string \<Rightarrow> string" where
  "VERSION_TEMPLATE v f =
     ''QIIME 2\<newline>archive: '' @ v @ ''\<newline>framework: '' @ f @ ''\<newline>''"

text \<open>
  \<^verbatim>\<open>_Archive._get_versions\<close>. The argument is what \<^verbatim>\<open>self.open(VERSION_FILE)\<close> followed
  by \<^verbatim>\<open>fh.read()\<close> gives: the text, or the exception raised on the way. The tuple
  assignment needs exactly four segments, \<^verbatim>\<open>split(':')[1]\<close> needs a colon, and every
  exception inside the \<^verbatim>\<open>try\<close> becomes the one \<^verbatim>\<open>ValueError\<close>.
\<close>

definition get_versions :: "error + string \<Rightarrow> error + string \<times> string" where
  "get_versions opened =
     (case opened of
        Inl _ \<Rightarrow> Inl ValueError_malformed_VERSION
      | Inr text \<Rightarrow>
          (case split_on CHR ''\<newline>'' text of
             [header, version_line, framework_version_line, eof] \<Rightarrow>
               if py_strip header \<noteq> ''QIIME 2'' then Inl ValueError_malformed_VERSION
               else (case split_on CHR '':'' version_line of
                       _ # version # _ \<Rightarrow>
                         (case split_on CHR '':'' framework_version_line of
                            _ # framework_version # _ \<Rightarrow>
                              Inr (py_strip version, py_strip framework_version)
                          | _ \<Rightarrow> Inl ValueError_malformed_VERSION)
                     | _ \<Rightarrow> Inl ValueError_malformed_VERSION)
           | _ \<Rightarrow> Inl ValueError_malformed_VERSION))"

text \<open>
  The template in the specification's words: split on newline, the text has the literal
  header \<^verbatim>\<open>QIIME 2\<close>, a line \<^verbatim>\<open>archive: <version>\<close>, a line
  \<^verbatim>\<open>framework: <framework_version>\<close> and a trailing empty segment.
\<close>

definition exact_template :: "string \<Rightarrow> bool" where
  "exact_template text =
     (case split_on CHR ''\<newline>'' text of
        [header, version_line, framework_version_line, eof] \<Rightarrow>
          header = ''QIIME 2'' \<and> startswith version_line ''archive: '' \<and>
          startswith framework_version_line ''framework: '' \<and> eof = []
      | _ \<Rightarrow> False)"

text \<open>What the parser accepts, read off its three checks.\<close>

definition accepted_shape :: "string \<Rightarrow> bool" where
  "accepted_shape text =
     (case split_on CHR ''\<newline>'' text of
        [header, version_line, framework_version_line, eof] \<Rightarrow>
          py_strip header = ''QIIME 2'' \<and> CHR '':'' \<in> set version_line \<and>
          CHR '':'' \<in> set framework_version_line
      | _ \<Rightarrow> False)"

section \<open>Paths and the file system\<close>

text \<open>
  A \<^verbatim>\<open>pathlib.Path\<close> of a file is the list of its components below the root, the root
  itself being \<open>[]\<close>; paths are taken absolute and without \<^verbatim>\<open>.\<close> and \<^verbatim>\<open>..\<close>
  components. \<open>parent\<close> is \<^verbatim>\<open>Path.parent\<close>, \<open>basename\<close> is \<^verbatim>\<open>os.path.basename\<close>.
\<close>

definition parent :: "path \<Rightarrow> path" where
  "parent p = butlast p"

definition basename :: "path \<Rightarrow> string" where
  "basename p = (if p = [] then [] else last p)"

text \<open>
  \<^verbatim>\<open>os.path.join(dest, name)\<close> for a \<open>name\<close> without a separator, which a base name and
  a version-4 UUID are.
\<close>

definition os_path_join :: "path \<Rightarrow> string \<Rightarrow> path" where
  "os_path_join dest name = (if name = [] then dest else dest @ [name])"

text \<open>
  The file system maps a path to what is there: a directory, a regular file with its text,
  or a ZIP container with its members (name and data) in the order of its central
  directory. The root is always a directory.
\<close>

datatype node = Dir | File string | ZipFile "(string \<times> string) list"

type_synonym fs = "path \<Rightarrow> node option"

definition node_at :: "fs \<Rightarrow> path \<Rightarrow> node option" where
  "node_at fs p = (if p = [] then Some Dir else fs p)"

definition path_exists :: "fs \<Rightarrow> path \<Rightarrow> bool" where
  "path_exists fs p = (node_at fs p \<noteq> None)"

definition isdir :: "fs \<Rightarrow> path \<Rightarrow> bool" where
  "isdir fs p = (node_at fs p = Some Dir)"

definition is_zipfile :: "fs \<Rightarrow> path \<Rightarrow> bool" where
  "is_zipfile fs p = (case node_at fs p of Some (ZipFile _) \<Rightarrow> True | _ \<Rightarrow> False)"

text \<open>
  \<^verbatim>\<open>os.mkdir\<close>, \<^verbatim>\<open>os.makedirs\<close> (with \<^verbatim>\<open>exist_ok=False\<close>) and writing a file opened
  with mode \<^verbatim>\<open>'wb'\<close>. Each returns the exception or the value, and the file system it
  leaves: \<^verbatim>\<open>makedirs\<close> keeps the directories it made before it failed.
\<close>

definition os_mkdir :: "path \<Rightarrow> fs \<Rightarrow> (error + unit) \<times> fs" where
  "os_mkdir p fs =
     (if path_exists fs p then (Inl FileExistsError, fs)
      else if isdir fs (parent p) then (Inr (), fs(p \<mapsto> Dir))
      else if path_exists fs (parent p) then (Inl NotADirectoryError, fs)
      else (Inl FileNotFoundError, fs))"

function makedirs :: "path \<Rightarrow> fs \<Rightarrow> (error + unit) \<times> fs" where
  "makedirs name fs =
     (if name \<noteq> [] \<and> \<not> path_exists fs (parent name) then
        (case makedirs (parent name) fs of
           (Inl e, fs') \<Rightarrow> if e = FileExistsError then os_mkdir name fs' else (Inl e, fs')
         | (Inr _, fs') \<Rightarrow> os_mkdir name fs')
      else os_mkdir name fs)"
  by pat_completeness auto
termination
  by (relation "measure (\<lambda>(name, fs). length name)") (auto simp: parent_def)

declare makedirs.simps [simp del]

definition write_file :: "path \<Rightarrow> string \<Rightarrow> fs \<Rightarrow> (error + unit) \<times> fs" where
  "write_file p data fs =
     (if isdir fs p then (Inl IsADirectoryError, fs)
      else if isdir fs (parent p) then (Inr (), fs(p \<mapsto> File data))
      else if path_exists fs (parent p) then (Inl NotADirectoryError, fs)
      else (Inl FileNotFoundError, fs))"

text \<open>
  Reading a file as text, as \<^verbatim>\<open>open(p).read()\<close> does: the data of a file is the text it
  decodes to, read with its line ends translated; a container is not text.
\<close>

definition read_text :: "fs \<Rightarrow> path \<Rightarrow> error + string" where
  "read_text fs p =
     (case node_at fs p of
        None \<Rightarrow> Inl FileNotFoundError
      | Some Dir \<Rightarrow> Inl IsADirectoryError
      | Some (File data) \<Rightarrow> Inr (universal_newlines data)
      | Some (ZipFile _) \<Rightarrow> Inl UnicodeDecodeError)"

section \<open>POSIX path strings\<close>

text \<open>\<^verbatim>\<open>sep.join(parts)\<close>.\<close>

fun join_with :: "char \<Rightarrow> string list \<Rightarrow> string" where
  "join_with c [] = []"
| "join_with c [x] = x"
| "join_with c (x # y # ys) = x @ c # join_with c (y # ys)"

text \<open>
  \<^verbatim>\<open>PurePosixPath(name).parts\<close>: the components between slashes without the empty ones
  and the \<^verbatim>\<open>.\<close> ones, after the root \<^verbatim>\<open>/\<close> (or \<^verbatim>\<open>//\<close> for exactly two leading
  slashes) when the name is absolute.
\<close>

definition posix_parts :: "string \<Rightarrow> string list" where
  "posix_parts name =
     (if startswith name ''//'' \<and> \<not> startswith name ''///'' then [''//'']
      else if startswith name ''/'' then [''/''] else [])
     @ [x \<leftarrow> split_on CHR ''/'' name. x \<noteq> [] \<and> x \<noteq> ''.'']"

text \<open>\<^verbatim>\<open>str\<close> of the pure path with the given parts.\<close>

definition posix_str :: "string list \<Rightarrow> string" where
  "posix_str parts =
     (case parts of
        [] \<Rightarrow> ''.''
      | r # rest \<Rightarrow>
          if r = ''/'' \<or> r = ''//'' then r @ join_with CHR ''/'' rest
          else join_with CHR ''/'' parts)"

text \<open>The \<^verbatim>\<open>/\<close> operator of pure paths, on parts: an absolute right operand wins.\<close>

definition pathlib_join :: "string list \<Rightarrow> string list \<Rightarrow> string list" where
  "pathlib_join a b =
     (case b of
        [] \<Rightarrow> a
      | r # _ \<Rightarrow> if r = ''/'' \<or> r = ''//'' then b else a @ b)"

text \<open>\<^verbatim>\<open>_ZipArchive._as_zip_path\<close>, on the parts of its argument.\<close>

definition as_zip_path :: "string list \<Rightarrow> string" where
  "as_zip_path parts = (let p = posix_str parts in if p = ''.'' then [] else p)"

section \<open>ZIP containers\<close>

text \<open>
  \<^verbatim>\<open>zipfile.ZipFile(str(path), mode='r')\<close>, \<^verbatim>\<open>ZipFile.namelist\<close> and reading a member
  by name (\<^verbatim>\<open>ZipFile.open\<close> wrapped as text): of members with one name the last one is
  found.
\<close>

definition zip_open :: "fs \<Rightarrow> path \<Rightarrow> error + (string \<times> string) list" where
  "zip_open fs p =
     (case node_at fs p of
        None \<Rightarrow> Inl FileNotFoundError
      | Some Dir \<Rightarrow> Inl IsADirectoryError
      | Some (File _) \<Rightarrow> Inl BadZipFile
      | Some (ZipFile z) \<Rightarrow> Inr z)"

definition namelist :: "(string \<times> string) list \<Rightarrow> string list" where
  "namelist z = map fst z"

definition zip_read :: "(string \<times> string) list \<Rightarrow> string \<Rightarrow> error + string" where
  "zip_read z name = (case map_of (rev z) name of None \<Rightarrow> Inl KeyError | Some data \<Rightarrow> Inr data)"

text \<open>
  \<^verbatim>\<open>ZipFile.extract(name, path=target)\<close> of the standard library (POSIX). The member's name
  is cut at slashes and the empty, \<^verbatim>\<open>.\<close> and \<^verbatim>\<open>..\<close> components are dropped; what is
  left is joined to \<open>target\<close>. Missing upper directories are made; a member whose name
  ends in a slash is a directory, any other is written as a file.
\<close>

definition sanitize_arcname :: "string \<Rightarrow> string list" where
  "sanitize_arcname name =
     [x \<leftarrow> split_on CHR ''/'' name. x \<noteq> [] \<and> x \<noteq> ''.'' \<and> x \<noteq> ''..'']"

definition is_dir_name :: "string \<Rightarrow> bool" where
  "is_dir_name name = (name \<noteq> [] \<and> last name = CHR ''/'')"

definition extract_member :: "string \<Rightarrow> string \<Rightarrow> path \<Rightarrow> fs \<Rightarrow> (error + path) \<times> fs" where
  "extract_member name data targetpath fs =
     (if is_dir_name name then
        (if \<not> isdir fs targetpath then
           (case os_mkdir targetpath fs of
              (Inl e, fs') \<Rightarrow> (Inl e, fs')
            | (Inr _, fs') \<Rightarrow> (Inr targetpath, fs'))
         else (Inr targetpath, fs))
      else
        (case write_file targetpath data fs of
           (Inl e, fs') \<Rightarrow> (Inl e, fs')
         | (Inr _, fs') \<Rightarrow> (Inr targetpath, fs')))"

definition zf_extract ::
  "(string \<times> string) list \<Rightarrow> string \<Rightarrow> path \<Rightarrow> fs \<Rightarrow> (error + path) \<times> fs" where
  "zf_extract z name target fs =
     (case zip_read z name of
        Inl e \<Rightarrow> (Inl e, fs)
      | Inr data \<Rightarrow>
          let targetpath = target @ sanitize_arcname name;
              upperdirs = parent targetpath
          in if \<not> path_exists fs upperdirs then
               (case makedirs upperdirs fs of
                  (Inl e, fs') \<Rightarrow> (Inl e, fs')
                | (Inr _, fs') \<Rightarrow> extract_member name data targetpath fs')
             else extract_member name data targetpath fs)"

section \<open>Archive backends\<close>

text \<open>
  Modelled from the spec: \<^verbatim>\<open>is_uuid4\<close> of \<^verbatim>\<open>qiime2.core.util\<close>, which is not among the
  sources. "A syntactically valid UUID version 4" is read as the canonical text form: 32
  hexadecimal digits in groups of 8, 4, 4, 4 and 12 joined by hyphens, the third group
  starting with \<^verbatim>\<open>4\<close> and the fourth with one of \<^verbatim>\<open>8 9 a b\<close>, letters in either case.
  In the pattern, \<^verbatim>\<open>x\<close> stands for a hexadecimal digit and \<^verbatim>\<open>y\<close> for the variant digit.
\<close>

definition is_hex :: "char \<Rightarrow> bool" where
  "is_hex c = (c \<in> set ''0123456789abcdefABCDEF'')"

definition uuid4_char :: "char \<Rightarrow> char \<Rightarrow> bool" where
  "uuid4_char p c =
     (if p = CHR ''x'' then is_hex c
      else if p = CHR ''y'' then c \<in> set ''89abAB''
      else c = p)"

definition is_uuid4 :: "string \<Rightarrow> bool" where
  "is_uuid4 s = list_all2 uuid4_char ''xxxxxxxx-xxxx-4xxx-yxxx-xxxxxxxxxxxx'' s"

datatype archive_type = ZipArchive | NoOpArchive

text \<open>
  An instance of \<^verbatim>\<open>_ZipArchive\<close> or \<^verbatim>\<open>_NoOpArchive\<close> with the attributes set by
  \<^verbatim>\<open>_Archive.__init__\<close>, and the named tuple \<^verbatim>\<open>ArchiveRecord\<close>.
\<close>

record archive =
  archive_type :: archive_type
  path :: path
  uuid :: string
  version :: string
  framework_version :: string

record ArchiveRecord =
  root :: path
  version_fp :: path
  rec_uuid :: string
  rec_version :: string
  rec_framework_version :: string

definition VERSION_FILE :: string where
  "VERSION_FILE = ''VERSION''"

text \<open>
  The loop of \<^verbatim>\<open>_ZipArchive.relative_iterdir\<close> over the names of the container: the first
  part of every name that starts with \<open>relpath\<close>, each yielded once, in order.
\<close>

fun zip_iterdir_loop :: "string \<Rightarrow> string list \<Rightarrow> string list \<Rightarrow> string list" where
  "zip_iterdir_loop relpath seen [] = []"
| "zip_iterdir_loop relpath seen (name # names) =
     (if startswith name relpath then
        (case posix_parts name of
           [] \<Rightarrow> zip_iterdir_loop relpath seen names
         | result # _ \<Rightarrow>
             if result \<in> set seen then zip_iterdir_loop relpath seen names
             else result # zip_iterdir_loop relpath (result # seen) names)
      else zip_iterdir_loop relpath seen names)"

definition ZipArchive_relative_iterdir :: "fs \<Rightarrow> path \<Rightarrow> string \<Rightarrow> error + string list" where
  "ZipArchive_relative_iterdir fs self_path relpath =
     (case zip_open fs self_path of
        Inl e \<Rightarrow> Inl e
      | Inr z \<Rightarrow> Inr (zip_iterdir_loop (as_zip_path (posix_parts relpath)) [] (namelist z)))"

text \<open>
  \<^verbatim>\<open>_Archive._get_uuid\<close>, given whether \<^verbatim>\<open>self.path\<close> exists and what
  \<^verbatim>\<open>self.relative_iterdir()\<close> yields. The set \<^verbatim>\<open>roots\<close> is the list of its elements.
\<close>

definition get_uuid :: "path \<Rightarrow> bool \<Rightarrow> error + string list \<Rightarrow> error + string" where
  "get_uuid self_path self_path_exists relative_iterdir =
     (if \<not> self_path_exists then Inl (TypeError_not_exist self_path)
      else
        (case relative_iterdir of
           Inl e \<Rightarrow> Inl e
         | Inr listing \<Rightarrow>
             (case remdups [relpath \<leftarrow> listing. \<not> startswith relpath ''.''] of
                [] \<Rightarrow> Inl ValueError_no_visible_root
              | [u] \<Rightarrow> if \<not> is_uuid4 u then Inl (ValueError_invalid_uuid u) else Inr u
              | _ \<Rightarrow> Inl ValueError_multiple_roots)))"

text \<open>
  \<^verbatim>\<open>_ZipArchive.open\<close> followed by \<^verbatim>\<open>read\<close>: the member is read through
  \<^verbatim>\<open>io.TextIOWrapper\<close>, which translates the line ends.
\<close>

definition ZipArchive_open :: "fs \<Rightarrow> path \<Rightarrow> string \<Rightarrow> string \<Rightarrow> error + string" where
  "ZipArchive_open fs self_path self_uuid relpath =
     (case zip_open fs self_path of
        Inl e \<Rightarrow> Inl e
      | Inr z \<Rightarrow>
          (case zip_read z (as_zip_path (pathlib_join (posix_parts self_uuid) (posix_parts relpath))) of
             Inl e \<Rightarrow> Inl e
           | Inr data \<Rightarrow> Inr (universal_newlines data)))"

text \<open>\<^verbatim>\<open>_Archive.__init__\<close> of a \<^verbatim>\<open>_ZipArchive\<close>.\<close>

definition ZipArchive_init :: "fs \<Rightarrow> path \<Rightarrow> error + archive" where
  "ZipArchive_init fs p =
     (case get_uuid p (path_exists fs p) (ZipArchive_relative_iterdir fs p []) of
        Inl e \<Rightarrow> Inl e
      | Inr u \<Rightarrow>
          (case get_versions (ZipArchive_open fs p u VERSION_FILE) of
             Inl e \<Rightarrow> Inl e
           | Inr (v, f) \<Rightarrow>
               Inr \<lparr>archive_type = ZipArchive, path = p, uuid = u, version = v,
                    framework_version = f\<rparr>))"

text \<open>
  \<^verbatim>\<open>_NoOpArchive._get_uuid\<close>, \<^verbatim>\<open>_NoOpArchive.open\<close> (with \<^verbatim>\<open>read\<close>) and
  \<^verbatim>\<open>_Archive.__init__\<close> of a \<^verbatim>\<open>_NoOpArchive\<close>.
\<close>

definition NoOpArchive_get_uuid :: "path \<Rightarrow> string" where
  "NoOpArchive_get_uuid self_path = basename self_path"

definition NoOpArchive_open :: "fs \<Rightarrow> path \<Rightarrow> string \<Rightarrow> error + string" where
  "NoOpArchive_open fs self_path relpath = read_text fs (os_path_join self_path relpath)"

definition NoOpArchive_init :: "fs \<Rightarrow> path \<Rightarrow> error + archive" where
  "NoOpArchive_init fs p =
     (let u = NoOpArchive_get_uuid p in
      case get_versions (NoOpArchive_open fs p VERSION_FILE) of
        Inl e \<Rightarrow> Inl e
      | Inr (v, f) \<Rightarrow>
          Inr \<lparr>archive_type = NoOpArchive, path = p, uuid = u, version = v,
               framework_version = f\<rparr>)"

text \<open>\<^verbatim>\<open>Archiver.get_archive\<close>.\<close>

definition get_archive :: "fs \<Rightarrow> path \<Rightarrow> error + archive" where
  "get_archive fs filepath =
     (if \<not> path_exists fs filepath then Inl (ValueError_not_exist filepath)
      else if is_zipfile fs filepath then ZipArchive_init fs filepath
      else if isdir fs filepath then NoOpArchive_init fs filepath
      else Inl (ValueError_not_archive filepath))"

text \<open>
  \<^verbatim>\<open>_ZipArchive.extract\<close>: the loop over the names, and the method. The container is read
  once, when it is opened.
\<close>

fun extract_members ::
  "(string \<times> string) list \<Rightarrow> string \<Rightarrow> path \<Rightarrow> string list \<Rightarrow> fs \<Rightarrow> (error + unit) \<times> fs" where
  "extract_members z self_uuid target [] fs = (Inr (), fs)"
| "extract_members z self_uuid target (name # names) fs =
     (if startswith name self_uuid then
        (case zf_extract z name target fs of
           (Inl e, fs') \<Rightarrow> (Inl e, fs')
         | (Inr _, fs') \<Rightarrow> extract_members z self_uuid target names fs')
      else extract_members z self_uuid target names fs)"

definition ZipArchive_extract :: "archive \<Rightarrow> path \<Rightarrow> fs \<Rightarrow> (error + path) \<times> fs" where
  "ZipArchive_extract self filepath fs =
     (if basename filepath \<noteq> uuid self then (Inl AssertionError, fs)
      else
        (case zip_open fs (path self) of
           Inl e \<Rightarrow> (Inl e, fs)
         | Inr z \<Rightarrow>
             (case extract_members z (uuid self) (parent filepath) (namelist z) fs of
                (Inl e, fs') \<Rightarrow> (Inl e, fs')
              | (Inr _, fs') \<Rightarrow> (Inr filepath, fs'))))"

text \<open>\<^verbatim>\<open>_ZipArchive.mount\<close> and \<^verbatim>\<open>_NoOpArchive.mount\<close>.\<close>

definition mounted_record :: "archive \<Rightarrow> path \<Rightarrow> ArchiveRecord" where
  "mounted_record self r =
     \<lparr>root = r, version_fp = r @ [VERSION_FILE], rec_uuid = uuid self,
      rec_version = version self, rec_framework_version = framework_version self\<rparr>"

definition ZipArchive_mount :: "archive \<Rightarrow> path \<Rightarrow> fs \<Rightarrow> (error + ArchiveRecord) \<times> fs" where
  "ZipArchive_mount self filepath fs =
     (if \<not> path_exists fs (filepath @ [''VERSION'']) then
        (case ZipArchive_extract self filepath fs of
           (Inl e, fs') \<Rightarrow> (Inl e, fs')
         | (Inr _, fs') \<Rightarrow> (Inr (mounted_record self filepath), fs'))
      else (Inr (mounted_record self filepath), fs))"

definition NoOpArchive_mount :: "archive \<Rightarrow> path \<Rightarrow> fs \<Rightarrow> (error + ArchiveRecord) \<times> fs" where
  "NoOpArchive_mount self p fs = (Inr (mounted_record self p), fs)"

text \<open>
  Method dispatch on the backend. \<^verbatim>\<open>_NoOpArchive\<close> has no \<^verbatim>\<open>extract\<close> method, and
  neither has its base class, so the call raises \<^verbatim>\<open>AttributeError\<close>.
\<close>

definition mount :: "archive \<Rightarrow> path \<Rightarrow> fs \<Rightarrow> (error + ArchiveRecord) \<times> fs" where
  "mount self p fs =
     (case archive_type self of
        ZipArchive \<Rightarrow> ZipArchive_mount self p fs
      | NoOpArchive \<Rightarrow> NoOpArchive_mount self p fs)"

definition archive_extract :: "archive \<Rightarrow> path \<Rightarrow> fs \<Rightarrow> (error + path) \<times> fs" where
  "archive_extract self p fs =
     (case archive_type self of
        ZipArchive \<Rightarrow> ZipArchive_extract self p fs
      | NoOpArchive \<Rightarrow> (Inl AttributeError, fs))"

text \<open>\<^verbatim>\<open>Archiver.extract\<close>.\<close>

definition Archiver_extract :: "path \<Rightarrow> path \<Rightarrow> fs \<Rightarrow> (error + path) \<times> fs" where
  "Archiver_extract filepath dest fs =
     (case get_archive fs filepath of
        Inl e \<Rightarrow> (Inl e, fs)
      | Inr archive \<Rightarrow>
          let dest' = os_path_join dest (uuid archive) in
          (case makedirs dest' fs of
             (Inl e, fs') \<Rightarrow> (Inl e, fs')
           | (Inr _, fs') \<Rightarrow> archive_extract archive dest' fs'))"

text \<open>
  The visible top-level entries of a container in the specification's words: the first
  parts of the member names, without those that start with a dot.
\<close>

definition top_level_entries :: "(string \<times> string) list \<Rightarrow> string set" where
  "top_level_entries z = (\<lambda>n. hd (posix_parts n)) ` {n \<in> set (namelist z). posix_parts n \<noteq> []}"

definition visible_roots :: "(string \<times> string) list \<Rightarrow> string set" where
  "visible_roots z = {r \<in> top_level_entries z. \<not> startswith r ''.''}"

text \<open>
  A path lies inside a directory when it continues the directory's path by components none
  of which is the parent-directory segment.
\<close>

definition inside :: "path \<Rightarrow> path \<Rightarrow> bool" where
  "inside d q = (take (length d) q = d \<and> ''..'' \<notin> set (drop (length d) q))"

text \<open>
  What an extraction into \<open>target\<close> may change between two file systems: paths inside
  \<open>target\<close>, and directories above it that were missing and are made.
\<close>

definition changes_within :: "path \<Rightarrow> fs \<Rightarrow> fs \<Rightarrow> bool" where
  "changes_within target fs fs' =
     (\<forall>q. fs' q \<noteq> fs q \<longrightarrow>
          inside target q \<or> (strict_prefix q target \<and> fs q = None \<and> fs' q = Some Dir))"

section \<open>The format registry\<close>

text \<open>
  A format handler class \<^verbatim>\<open>ArchiveFormat\<close> of one version, as far as this module calls it:
  \<^verbatim>\<open>Format.load_metadata(archive)\<close>, the constructor \<^verbatim>\<open>Format(rec)\<close> and
  \<^verbatim>\<open>Format.write(rec, type, format, data_initializer, provenance_capture)\<close>, whose last four
  arguments are one value of type \<open>'w\<close>. The handlers read and write files only.
\<close>

record ('m, 'f, 'w) format_class =
  load_metadata :: "archive \<Rightarrow> fs \<Rightarrow> error + 'm"
  construct :: "ArchiveRecord \<Rightarrow> fs \<Rightarrow> error + 'f"
  write_format :: "ArchiveRecord \<Rightarrow> 'w \<Rightarrow> fs \<Rightarrow> (error + unit) \<times> fs"

definition CURRENT_FORMAT_VERSION :: string where
  "CURRENT_FORMAT_VERSION = ''5''"

definition FORMAT_REGISTRY :: "(string \<times> string) list" where
  "FORMAT_REGISTRY =
     [(''0'', ''qiime2.core.archive.format.v0:ArchiveFormat''),
      (''1'', ''qiime2.core.archive.format.v1:ArchiveFormat''),
      (''2'', ''qiime2.core.archive.format.v2:ArchiveFormat''),
      (''3'', ''qiime2.core.archive.format.v3:ArchiveFormat''),
      (''4'', ''qiime2.core.archive.format.v4:ArchiveFormat''),
      (''5'', ''qiime2.core.archive.format.v5:ArchiveFormat'')]"

text \<open>
  \<^verbatim>\<open>Archiver.get_format_class\<close>. \<open>importer imp fmt_cls\<close> is
  \<^verbatim>\<open>getattr(importlib.import_module(imp), fmt_cls)\<close>; only the \<^verbatim>\<open>KeyError\<close> of the
  lookup is caught.
\<close>

definition get_format_class ::
  "(string \<Rightarrow> string \<Rightarrow> error + 'F) \<Rightarrow> string \<Rightarrow> error + 'F option" where
  "get_format_class importer v =
     (case map_of FORMAT_REGISTRY v of
        None \<Rightarrow> Inr None
      | Some locator \<Rightarrow>
          (case split_on CHR '':'' locator of
             [imp, fmt_cls] \<Rightarrow>
               (case importer imp fmt_cls of
                  Inl e \<Rightarrow> Inl e
                | Inr F \<Rightarrow> Inr (Some F))
           | _ \<Rightarrow> Inl ValueError_unpack))"

section \<open>The lifecycle manager\<close>

text \<open>
  The world the class methods of \<^verbatim>\<open>Archiver\<close> act on: the file system and the state of the
  cache, of a type \<open>'c\<close> this module knows nothing about.
\<close>

record 'c world =
  files :: fs
  cache :: 'c

text \<open>
  What the module calls and does not define: the import of a format handler, the running
  framework's version \<^verbatim>\<open>qiime2.__version__\<close>, and the cache of \<^verbatim>\<open>qiime2.core.cache\<close>
  with the four operations used here,
  \<^verbatim>\<open>cache.process_pool._allocate(uuid)\<close>, \<^verbatim>\<open>cache.process_pool.remove(name)\<close>,
  \<^verbatim>\<open>cache._rename_to_data(uuid, path)\<close> and \<^verbatim>\<open>cache._alias(name)\<close>. Each cache operation
  returns its value or raises, and leaves a world.
\<close>

record ('m, 'f, 'w, 'c) collaborators =
  importer :: "string \<Rightarrow> string \<Rightarrow> error + ('m, 'f, 'w) format_class"
  qiime2_version :: string
  allocate :: "string \<Rightarrow> 'c world \<Rightarrow> (error + path) \<times> 'c world"
  pool_remove :: "string \<Rightarrow> 'c world \<Rightarrow> (error + unit) \<times> 'c world"
  rename_to_data :: "string \<Rightarrow> path \<Rightarrow> 'c world \<Rightarrow> (error + string \<times> path) \<times> 'c world"
  make_alias :: "string \<Rightarrow> 'c world \<Rightarrow> (error + string) \<times> 'c world"

text \<open>
  An \<^verbatim>\<open>Archiver\<close> instance. Its constructor also registers the finalizer that releases
  \<open>process_alias\<close> when the instance is collected, which has no effect at construction.
\<close>

record 'f archiver =
  archiver_path :: path
  process_alias :: string
  fmt :: 'f

text \<open>\<^verbatim>\<open>Archiver._make_temp_path\<close> and \<^verbatim>\<open>Archiver._destroy_temp_path\<close>.\<close>

definition make_temp_path ::
  "('m, 'f, 'w, 'c) collaborators \<Rightarrow> string \<Rightarrow> 'c world \<Rightarrow> (error + path) \<times> 'c world" where
  "make_temp_path C u w = allocate C u w"

definition destroy_temp_path ::
  "('m, 'f, 'w, 'c) collaborators \<Rightarrow> string \<Rightarrow> 'c world \<Rightarrow> (error + unit) \<times> 'c world" where
  "destroy_temp_path C name w = pool_remove C name w"

text \<open>
  \<^verbatim>\<open>Archiver._futuristic_archive_error\<close>: the exception it raises, with the three values
  its message is formatted from.
\<close>

definition futuristic_archive_error :: "path \<Rightarrow> archive \<Rightarrow> error" where
  "futuristic_archive_error filepath a =
     ValueError_futuristic filepath (framework_version a) (version a)"

text \<open>\<^verbatim>\<open>Archiver.peek\<close>.\<close>

definition peek ::
  "('m, 'f, 'w, 'c) collaborators \<Rightarrow> path \<Rightarrow> 'c world \<Rightarrow> (error + 'm) \<times> 'c world" where
  "peek C filepath w =
     (case get_archive (files w) filepath of
        Inl e \<Rightarrow> (Inl e, w)
      | Inr a \<Rightarrow>
          (case get_format_class (importer C) (version a) of
             Inl e \<Rightarrow> (Inl e, w)
           | Inr None \<Rightarrow> (Inl (futuristic_archive_error filepath a), w)
           | Inr (Some Format) \<Rightarrow> (load_metadata Format a (files w), w)))"

text \<open>
  The \<^verbatim>\<open>try\<close> block of \<^verbatim>\<open>Archiver.load\<close>. Next to the result it tells whether the local
  variable \<^verbatim>\<open>process_alias\<close> has been assigned, and to what, which is what
  \<^verbatim>\<open>'process_alias' in vars()\<close> asks in the handler.
\<close>

definition load_try ::
  "('m, 'f, 'w, 'c) collaborators \<Rightarrow> path \<Rightarrow> archive \<Rightarrow> path \<Rightarrow> 'c world
     \<Rightarrow> ((error + 'f archiver) \<times> string option) \<times> 'c world" where
  "load_try C filepath a p w =
     (case get_format_class (importer C) (version a) of
        Inl e \<Rightarrow> ((Inl e, None), w)
      | Inr None \<Rightarrow> ((Inl (futuristic_archive_error filepath a), None), w)
      | Inr (Some Format) \<Rightarrow>
          (case mount a p (files w) of
             (Inl e, fs1) \<Rightarrow> ((Inl e, None), w\<lparr>files := fs1\<rparr>)
           | (Inr _, fs1) \<Rightarrow>
               (case rename_to_data C (uuid a) p (w\<lparr>files := fs1\<rparr>) of
                  (Inl e, w2) \<Rightarrow> ((Inl e, None), w2)
                | (Inr (alias, data_path), w2) \<Rightarrow>
                    (case construct Format
                            \<lparr>root = data_path, version_fp = data_path @ [VERSION_FILE],
                             rec_uuid = uuid a, rec_version = version a,
                             rec_framework_version = framework_version a\<rparr>
                            (files w2) of
                       Inl e \<Rightarrow> ((Inl e, Some alias), w2)
                     | Inr format \<Rightarrow>
                         ((Inr \<lparr>archiver_path = data_path, process_alias = alias,
                                 fmt = format\<rparr>,
                           Some alias), w2)))))"

text \<open>
  The bare \<^verbatim>\<open>except\<close> handler shared by \<^verbatim>\<open>load\<close> and \<^verbatim>\<open>from_data\<close>: the temporary path
  is destroyed, then the alias if the variable is bound, then the exception \<open>e\<close> is raised
  again. An exception raised by a destroy call takes the place of \<open>e\<close>.
\<close>

definition except_handler ::
  "('m, 'f, 'w, 'c) collaborators \<Rightarrow> string \<Rightarrow> string option \<Rightarrow> error \<Rightarrow> 'c world
     \<Rightarrow> (error + 'a) \<times> 'c world" where
  "except_handler C u bound e w =
     (case destroy_temp_path C u w of
        (Inl e', w') \<Rightarrow> (Inl e', w')
      | (Inr _, w') \<Rightarrow>
          (case bound of
             None \<Rightarrow> (Inl e, w')
           | Some alias \<Rightarrow>
               (case destroy_temp_path C alias w' of
                  (Inl e', w'') \<Rightarrow> (Inl e', w'')
                | (Inr _, w'') \<Rightarrow> (Inl e, w''))))"

text \<open>\<^verbatim>\<open>Archiver.load\<close>.\<close>

definition load ::
  "('m, 'f, 'w, 'c) collaborators \<Rightarrow> path \<Rightarrow> 'c world \<Rightarrow> (error + 'f archiver) \<times> 'c world" where
  "load C filepath w =
     (case get_archive (files w) filepath of
        Inl e \<Rightarrow> (Inl e, w)
      | Inr a \<Rightarrow>
          (case make_temp_path C (uuid a) w of
             (Inl e, w1) \<Rightarrow> (Inl e, w1)
           | (Inr p, w1) \<Rightarrow>
               (case load_try C filepath a p w1 of
                  ((Inr ref, _), w2) \<Rightarrow> (Inr ref, w2)
                | ((Inl e, bound), w2) \<Rightarrow> except_handler C (uuid a) bound e w2)))"

text \<open>\<^verbatim>\<open>Archiver.load_raw\<close>, whose cache is the one of the world.\<close>

definition load_raw ::
  "('m, 'f, 'w, 'c) collaborators \<Rightarrow> path \<Rightarrow> 'c world \<Rightarrow> (error + 'f archiver) \<times> 'c world" where
  "load_raw C filepath w =
     (case get_archive (files w) filepath of
        Inl e \<Rightarrow> (Inl e, w)
      | Inr a \<Rightarrow>
          (case make_alias C (uuid a) w of
             (Inl e, w1) \<Rightarrow> (Inl e, w1)
           | (Inr alias, w1) \<Rightarrow>
               (case get_format_class (importer C) (version a) of
                  Inl e \<Rightarrow> (Inl e, w1)
                | Inr None \<Rightarrow> (Inl (futuristic_archive_error filepath a), w1)
                | Inr (Some Format) \<Rightarrow>
                    (case mount a filepath (files w1) of
                       (Inl e, fs2) \<Rightarrow> (Inl e, w1\<lparr>files := fs2\<rparr>)
                     | (Inr r, fs2) \<Rightarrow>
                         (case construct Format r fs2 of
                            Inl e \<Rightarrow> (Inl e, w1\<lparr>files := fs2\<rparr>)
                          | Inr format \<Rightarrow>
                              (Inr \<lparr>archiver_path = filepath, process_alias = alias,
                                     fmt = format\<rparr>,
                               w1\<lparr>files := fs2\<rparr>))))))"

text \<open>\<^verbatim>\<open>_Archive.setup\<close>: \<^verbatim>\<open>write_text\<close> of the VERSION file, then the record.\<close>

definition Archive_setup ::
  "string \<Rightarrow> path \<Rightarrow> string \<Rightarrow> string \<Rightarrow> fs \<Rightarrow> (error + ArchiveRecord) \<times> fs" where
  "Archive_setup u p v f fs =
     (case write_file (p @ [VERSION_FILE]) (VERSION_TEMPLATE v f) fs of
        (Inl e, fs') \<Rightarrow> (Inl e, fs')
      | (Inr _, fs') \<Rightarrow>
          (Inr \<lparr>root = p, version_fp = p @ [VERSION_FILE], rec_uuid = u, rec_version = v,
                rec_framework_version = f\<rparr>, fs'))"

text \<open>
  The \<^verbatim>\<open>try\<close> block of \<^verbatim>\<open>Archiver.from_data\<close>, for the UUID that \<^verbatim>\<open>uuid4()\<close> returned
  and the path allocated for it. Were the format class \<^verbatim>\<open>None\<close>, \<^verbatim>\<open>Format.write\<close> would
  raise \<^verbatim>\<open>AttributeError\<close>.
\<close>

definition from_data_try ::
  "('m, 'f, 'w, 'c) collaborators \<Rightarrow> string \<Rightarrow> path \<Rightarrow> 'w \<Rightarrow> 'c world
     \<Rightarrow> ((error + 'f archiver) \<times> string option) \<times> 'c world" where
  "from_data_try C u p args w =
     (case Archive_setup u p CURRENT_FORMAT_VERSION (qiime2_version C) (files w) of
        (Inl e, fs1) \<Rightarrow> ((Inl e, None), w\<lparr>files := fs1\<rparr>)
      | (Inr r, fs1) \<Rightarrow>
          (case get_format_class (importer C) CURRENT_FORMAT_VERSION of
             Inl e \<Rightarrow> ((Inl e, None), w\<lparr>files := fs1\<rparr>)
           | Inr None \<Rightarrow> ((Inl AttributeError, None), w\<lparr>files := fs1\<rparr>)
           | Inr (Some Format) \<Rightarrow>
               (case write_format Format r args fs1 of
                  (Inl e, fs2) \<Rightarrow> ((Inl e, None), w\<lparr>files := fs2\<rparr>)
                | (Inr _, fs2) \<Rightarrow>
                    (case rename_to_data C u p (w\<lparr>files := fs2\<rparr>) of
                       (Inl e, w3) \<Rightarrow> ((Inl e, None), w3)
                     | (Inr (alias, data_path), w3) \<Rightarrow>
                         (case construct Format
                                 \<lparr>root = data_path, version_fp = data_path @ [VERSION_FILE],
                                  rec_uuid = u, rec_version = CURRENT_FORMAT_VERSION,
                                  rec_framework_version = qiime2_version C\<rparr>
                                 (files w3) of
                            Inl e \<Rightarrow> ((Inl e, Some alias), w3)
                          | Inr format \<Rightarrow>
                              ((Inr \<lparr>archiver_path = data_path, process_alias = alias,
                                      fmt = format\<rparr>,
                                Some alias), w3))))))"

text \<open>\<^verbatim>\<open>Archiver.from_data\<close>; \<open>u\<close> is the UUID that \<^verbatim>\<open>uuid4()\<close> returns.\<close>

definition from_data ::
  "('m, 'f, 'w, 'c) collaborators \<Rightarrow> string \<Rightarrow> 'w \<Rightarrow> 'c world
     \<Rightarrow> (error + 'f archiver) \<times> 'c world" where
  "from_data C u args w =
     (case make_temp_path C u w of
        (Inl e, w1) \<Rightarrow> (Inl e, w1)
      | (Inr p, w1) \<Rightarrow>
          (case from_data_try C u p args w1 of
             ((Inr ref, _), w2) \<Rightarrow> (Inr ref, w2)
           | ((Inl e, bound), w2) \<Rightarrow> except_handler C u bound e w2))"

text \<open>
  The contract of the cache that the rollback relies on, for a reading \<open>allocs\<close> of the
  names allocated in a cache state: allocating adds at most the name of the UUID, renaming
  adds at most the alias it returns and nothing when it raises, and removing a name
  releases it and does not raise.
\<close>

definition cache_contract ::
  "('m, 'f, 'w, 'c) collaborators \<Rightarrow> ('c \<Rightarrow> string set) \<Rightarrow> bool" where
  "cache_contract C allocs =
     ((\<forall>u w r w'. allocate C u w = (r, w') \<longrightarrow>
         allocs (cache w') \<subseteq> insert u (allocs (cache w)))
      \<and> (\<forall>u p w alias d w'. rename_to_data C u p w = (Inr (alias, d), w') \<longrightarrow>
            allocs (cache w') \<subseteq> insert alias (allocs (cache w)))
      \<and> (\<forall>u p w e w'. rename_to_data C u p w = (Inl e, w') \<longrightarrow>
            allocs (cache w') \<subseteq> allocs (cache w))
      \<and> (\<forall>n w r w'. pool_remove C n w = (r, w') \<longrightarrow>
            r = Inr () \<and> allocs (cache w') = allocs (cache w) - {n}))"

section \<open>Checksum validation\<close>

text \<open>
  A Python \<^verbatim>\<open>dict\<close> is an association list with distinct keys in insertion order.
  \<open>dict_from\<close> is \<^verbatim>\<open>dict(pairs)\<close>: a key seen again keeps its place and takes the
  later value.
\<close>

definition dict_from :: "('k \<times> 'v) list \<Rightarrow> ('k \<times> 'v) list" where
  "dict_from ps = foldl (\<lambda>d (k, v). AList.update k v d) [] ps"

text \<open>
  \<^verbatim>\<open>{x: d[x] for x in ks}\<close>. Every \<open>ks\<close> below is a list of keys of \<open>d\<close>, so the
  subscript \<^verbatim>\<open>d[x]\<close> cannot raise \<^verbatim>\<open>KeyError\<close>.
\<close>

definition subscript_items :: "('k \<times> 'v) list \<Rightarrow> 'k list \<Rightarrow> ('k \<times> 'v) list" where
  "subscript_items d ks =
     concat (map (\<lambda>x. case map_of d x of None \<Rightarrow> [] | Some v \<Rightarrow> [(x, v)]) ks)"

text \<open>
  \<^verbatim>\<open>{x: (exp[x], obs[x]) for x in ks if exp[x] != obs[x]}\<close>, for keys of both.
\<close>

definition changed_items :: "('k \<times> 'v) list \<Rightarrow> ('k \<times> 'v) list \<Rightarrow> 'k list \<Rightarrow> ('k \<times> 'v \<times> 'v) list" where
  "changed_items exp obs ks =
     concat (map (\<lambda>x. case (map_of exp x, map_of obs x) of
                         (Some e, Some ob) \<Rightarrow> if e \<noteq> ob then [(x, (e, ob))] else []
                       | _ \<Rightarrow> [])
             ks)"

record 'd ChecksumDiff =
  added :: "(string \<times> 'd) list"
  removed :: "(string \<times> 'd) list"
  changed :: "(string \<times> 'd \<times> 'd) list"

text \<open>
  The last lines of \<^verbatim>\<open>Archiver.validate_checksums\<close>, from \<^verbatim>\<open>obs_keys = set(obs)\<close>
  on: the three dictionaries built from \<open>obs\<close> and \<open>exp\<close>. The Python sets of keys are
  iterated in the order of the dictionaries.
\<close>

definition checksum_diff :: "(string \<times> 'd) list \<Rightarrow> (string \<times> 'd) list \<Rightarrow> 'd ChecksumDiff" where
  "checksum_diff obs exp =
     (let obs_keys = map fst obs;
          exp_keys = map fst exp
      in \<lparr>added = subscript_items obs [x \<leftarrow> obs_keys. x \<notin> set exp_keys],
          removed = subscript_items exp [x \<leftarrow> exp_keys. x \<notin> set obs_keys],
          changed = changed_items exp obs [x \<leftarrow> exp_keys. x \<in> set obs_keys]\<rparr>)"

text \<open>
  \<^verbatim>\<open>Archiver.validate_checksums\<close>. Its inputs are what the calls it makes give, each a
  value or the exception raised: \<open>isinstance_v5\<close> is
  \<^verbatim>\<open>isinstance(self._fmt, self.get_format_class('5'))\<close>, \<open>md5sum_directory\<close> the items of
  \<^verbatim>\<open>md5sum_directory(str(self.root_dir))\<close>, and \<open>manifest\<close> the pairs
  \<^verbatim>\<open>from_checksum_format(line)\<close> of the lines of the manifest file, in order.
\<close>

definition validate_checksums ::
  "error + bool \<Rightarrow> string \<Rightarrow> error + (string \<times> 'd) list \<Rightarrow> error + (string \<times> 'd) list
     \<Rightarrow> error + 'd ChecksumDiff" where
  "validate_checksums isinstance_v5 CHECKSUM_FILE md5sum_directory manifest =
     (case isinstance_v5 of
        Inl e \<Rightarrow> Inl e
      | Inr is_v5 \<Rightarrow>
          if \<not> is_v5 then Inr \<lparr>added = [], removed = [], changed = []\<rparr>
          else
            (case md5sum_directory of
               Inl e \<Rightarrow> Inl e
             | Inr md5sums \<Rightarrow>
                 (case manifest of
                    Inl e \<Rightarrow> Inl e
                  | Inr entries \<Rightarrow>
                      Inr (checksum_diff (dict_from [x \<leftarrow> md5sums. fst x \<noteq> CHECKSUM_FILE])
                                         (dict_from entries)))))"

text \<open>
  The three-way difference in the specification's words, on finite maps: \<open>obs\<close> the
  observed digests, \<open>exp\<close> the manifest's entries.
\<close>

definition observed_digests :: "('k \<times> 'v) list \<Rightarrow> 'k \<Rightarrow> ('k \<rightharpoonup> 'v)" where
  "observed_digests md5sums manifest_name =
     (\<lambda>x. if x = manifest_name then None else map_of (rev md5sums) x)"

definition spec_added :: "('k \<rightharpoonup> 'v) \<Rightarrow> ('k \<rightharpoonup> 'v) \<Rightarrow> ('k \<rightharpoonup> 'v)" where
  "spec_added obs exp = (\<lambda>x. if x \<in> dom obs \<and> x \<notin> dom exp then obs x else None)"

definition spec_removed :: "('k \<rightharpoonup> 'v) \<Rightarrow> ('k \<rightharpoonup> 'v) \<Rightarrow> ('k \<rightharpoonup> 'v)" where
  "spec_removed obs exp = (\<lambda>x. if x \<in> dom exp \<and> x \<notin> dom obs then exp x else None)"

definition spec_changed :: "('k \<rightharpoonup> 'v) \<Rightarrow> ('k \<rightharpoonup> 'v) \<Rightarrow> ('k \<rightharpoonup> 'v \<times> 'v)" where
  "spec_changed obs exp =
     (\<lambda>x. case (exp x, obs x) of
             (Some e, Some ob) \<Rightarrow> if e \<noteq> ob then Some (e, ob) else None
           | _ \<Rightarrow> None)"

section \<open>Example archives\<close>

text \<open>
  A container as \<^verbatim>\<open>save\<close> writes it, containers that break the root rule, and a file
  system that holds them next to an expanded artifact in a directory that is not named by
  a UUID.
\<close>

definition example_uuid :: string where
  "example_uuid = ''770509e6-85f4-432c-9663-cdc04eb07db2''"

definition example_container :: "(string \<times> string) list" where
  "example_container =
     [(example_uuid @ ''/VERSION'', VERSION_TEMPLATE ''5'' ''2023.2.0''),
      (example_uuid @ ''/data/x.txt'', ''hello'')]"

definition example_fs :: fs where
  "example_fs =
     Map.empty
       ([''tmp''] \<mapsto> Dir,
        [''tmp'', ''a.qza''] \<mapsto> ZipFile example_container,
        [''tmp'', ''hidden.zip''] \<mapsto> ZipFile [(''.git/config'', ''x'')],
        [''tmp'', ''two.zip''] \<mapsto> ZipFile [(''a/VERSION'', ''x''), (''b/VERSION'', ''y'')],
        [''tmp'', ''named.zip''] \<mapsto> ZipFile [(''results/VERSION'', ''x'')],
        [''pool''] \<mapsto> Dir,
        [''pool'', ''results''] \<mapsto> Dir,
        [''pool'', ''results'', ''VERSION''] \<mapsto> File (VERSION_TEMPLATE ''5'' ''2023.2.0''),
        [''pool'', ''results'', ''metadata.yaml''] \<mapsto> File ''uuid: none'')"

text \<open>
  A container with a member whose name climbs out of the root directory, and the backend
  constructed over it.
\<close>

definition climbing_container :: "(string \<times> string) list" where
  "climbing_container =
     [(example_uuid @ ''/VERSION'', VERSION_TEMPLATE ''5'' ''2023.2.0''),
      (example_uuid @ ''/../../etc/passwd'', ''x'')]"

definition climbing_fs :: fs where
  "climbing_fs =
     Map.empty
       ([''tmp''] \<mapsto> Dir,
        [''tmp'', ''evil.qza''] \<mapsto> ZipFile climbing_container,
        [''out''] \<mapsto> Dir,
        [''out'', ''work''] \<mapsto> Dir)"

definition climbing_archive :: archive where
  "climbing_archive =
     \<lparr>archive_type = ZipArchive, path = [''tmp'', ''evil.qza''], uuid = example_uuid,
      version = ''5'', framework_version = ''2023.2.0''\<rparr>"

definition example_archive :: archive where
  "example_archive =
     \<lparr>archive_type = ZipArchive, path = [''tmp'', ''a.qza''], uuid = example_uuid,
      version = ''5'', framework_version = ''2023.2.0''\<rparr>"

text \<open>
  A container that declares an archive version no registry entry knows, and collaborators
  for the examples: a cache whose state is the list of the allocated names, and one format
  handler for every locator, whose constructor raises when \<open>broken\<close> is set.
\<close>

definition future_container :: "(string \<times> string) list" where
  "future_container =
     [(example_uuid @ ''/VERSION'', VERSION_TEMPLATE ''99'' ''2040.1.0'')]"

definition future_archive :: archive where
  "future_archive =
     \<lparr>archive_type = ZipArchive, path = [''tmp'', ''future.qza''], uuid = example_uuid,
      version = ''99'', framework_version = ''2040.1.0''\<rparr>"

definition example_world :: "string list world" where
  "example_world =
     \<lparr>files = example_fs([''tmp'', ''future.qza''] \<mapsto> ZipFile future_container,
                         [''cache''] \<mapsto> Dir),
      cache = []\<rparr>"

definition example_format :: "bool \<Rightarrow> (string, string, unit) format_class" where
  "example_format broken =
     \<lparr>load_metadata = (\<lambda>a fs. Inr (uuid a)),
      construct = (\<lambda>r fs. if broken then Inl (Raised ''constructor'') else Inr (rec_uuid r)),
      write_format = (\<lambda>r args fs. (Inr (), fs))\<rparr>"

definition example_collaborators :: "bool \<Rightarrow> (string, string, unit, string list) collaborators" where
  "example_collaborators broken =
     \<lparr>importer = (\<lambda>imp fmt_cls. Inr (example_format broken)),
      qiime2_version = ''2023.2.0'',
      allocate = (\<lambda>u w. (Inr [''cache'', u],
                           w\<lparr>files := (files w)([''cache'', u] \<mapsto> Dir), cache := u # cache w\<rparr>)),
      pool_remove = (\<lambda>n w. (Inr (), w\<lparr>cache := removeAll n (cache w)\<rparr>)),
      rename_to_data = (\<lambda>u p w. (Inr (''alias of '' @ u, p),
                                   w\<lparr>cache := (''alias of '' @ u) # cache w\<rparr>)),
      make_alias = (\<lambda>n w. (Inr (''alias of '' @ n), w\<lparr>cache := (''alias of '' @ n) # cache w\<rparr>))\<rparr>"


text \<open>
  Two caches that do not keep the contract of the rollback: one whose \<^verbatim>\<open>remove\<close> raises
  and releases nothing, and one whose \<^verbatim>\<open>_rename_to_data\<close> raises after it has made the
  alias.
\<close>

definition raising_remove :: "(string, string, unit, string list) collaborators" where
  "raising_remove =
     (example_collaborators False)\<lparr>pool_remove := (\<lambda>n w. (Inl (Raised ''remove''), w))\<rparr>"

definition raising_rename :: "(string, string, unit, string list) collaborators" where
  "raising_rename =
     (example_collaborators False)
       \<lparr>rename_to_data := (\<lambda>u p w. (Inl (Raised ''rename''),
                                     w\<lparr>cache := (''alias of '' @ u) # cache w\<rparr>))\<rparr>"
section \<open>Facts about splitting\<close>

lemma split_on_not_Nil: "split_on c s \<noteq> []"
  by (induction s) (auto split: list.splits)

lemma length_split_on: "length (split_on c s) = Suc (count_list s c)"
  by (induction s) (auto split: list.splits simp: split_on_not_Nil)

lemma split_on_no_sep: "c \<notin> set s \<Longrightarrow> split_on c s = [s]"
  by (induction s) auto

lemma split_on_first_sep:
  "c \<notin> set xs \<Longrightarrow> split_on c (xs @ c # ys) = xs # split_on c ys"
  by (induction xs) auto

lemma count_list_pos_iff: "0 < count_list s c \<longleftrightarrow> c \<in> set s"
  by (induction s) auto

lemma split_on_has_second:
  "(\<exists>a b rest. split_on c s = a # b # rest) \<longleftrightarrow> c \<in> set s"
proof -
  have "(\<exists>a b rest. split_on c s = a # b # rest) \<longleftrightarrow> 2 \<le> length (split_on c s)"
    by (cases "split_on c s" rule: list.exhaust; simp; case_tac x22; simp)
  then show ?thesis
    using count_list_pos_iff [of s c] by (simp add: length_split_on) arith
qed

section \<open>The VERSION parser\<close>

lemma py_strip_literal: "py_strip ''QIIME 2'' = ''QIIME 2''"
  by (simp add: py_strip_def is_space_def)

lemma py_strip_lead: "py_strip (CHR '' '' # s) = py_strip s"
  by (simp add: py_strip_def is_space_def)

lemma get_versions_only_error: "get_versions opened = Inl e \<Longrightarrow> e = ValueError_malformed_VERSION"
  by (auto simp: get_versions_def split: sum.splits list.splits if_splits)

lemma case_second_segment:
  "(case split_on c s of [] \<Rightarrow> d | [a] \<Rightarrow> d | a # b # rest \<Rightarrow> g b) =
     (if c \<in> set s then g (split_on c s ! 1) else d)"
  using split_on_has_second [of c s] by (auto split: list.splits)

lemma get_versions_malformed_iff:
  "get_versions (Inr t) = Inl ValueError_malformed_VERSION \<longleftrightarrow> \<not> accepted_shape t"
proof (cases "\<exists>h v f e. split_on CHR ''\<newline>'' t = [h, v, f, e]")
  case True
  then obtain h v f e where "split_on CHR ''\<newline>'' t = [h, v, f, e]"
    by blast
  then show ?thesis
    by (simp add: get_versions_def accepted_shape_def case_second_segment)
next
  case False
  then show ?thesis
    by (auto simp: get_versions_def accepted_shape_def split: list.splits)
qed

lemma get_versions_template:
  assumes "CHR ''\<newline>'' \<notin> set v" "CHR ''\<newline>'' \<notin> set f" "CHR '':'' \<notin> set v" "CHR '':'' \<notin> set f"
  shows "get_versions (Inr (VERSION_TEMPLATE v f)) = Inr (py_strip v, py_strip f)"
proof -
  have "VERSION_TEMPLATE v f = ''QIIME 2'' @ CHR ''\<newline>'' # (''archive: '' @ v) @ CHR ''\<newline>'' # (''framework: '' @ f) @ CHR ''\<newline>'' # []"
    by (simp add: VERSION_TEMPLATE_def)
  then have s: "split_on CHR ''\<newline>'' (VERSION_TEMPLATE v f) = [''QIIME 2'', ''archive: '' @ v, ''framework: '' @ f, []]"
    using assms by (simp only: split_on_first_sep) (simp add: split_on_first_sep)
  show ?thesis
    using assms by (simp add: get_versions_def s split_on_no_sep py_strip_literal py_strip_lead)
qed

lemma get_versions_unicode_space:
  "get_versions (Inr (''QIIME 2'' @ [CHR 0xA0] @ ''\<newline>archive: 5'' @ [CHR 0x85]
                       @ ''\<newline>framework: 2023.2.0\<newline>''))
     = Inr (''5'', ''2023.2.0'')"
  by (simp add: get_versions_def py_strip_def is_space_def)

lemma universal_newlines_example:
  "universal_newlines (''QIIME 2'' @ [CHR 0x0D] @ ''archive: 5'' @ [CHR 0x0D, CHR 0x0A]
                        @ ''framework: 2023.2.0\<newline>'')
     = VERSION_TEMPLATE ''5'' ''2023.2.0''"
  by (simp add: VERSION_TEMPLATE_def)

text \<open>
  C4, as stated, fails: a text that deviates from the template (other words before the
  colons, text after the last newline) is parsed without an error.
\<close>

theorem get_versions_lenient_counterexample:
  "get_versions (Inr ''QIIME 2\<newline>what: 5\<newline>ever: 2023.2.0\<newline>trailing text'')
     = Inr (''5'', ''2023.2.0'')
   \<and> \<not> exact_template ''QIIME 2\<newline>what: 5\<newline>ever: 2023.2.0\<newline>trailing text''"
  by (simp add: get_versions_def exact_template_def py_strip_def is_space_def startswith_def)

text \<open>
  C4, amended. The VERSION parser raises the malformed-VERSION error, and no other, exactly
  when the text does not split on newline into four segments, or the first segment with its
  surrounding whitespace stripped is not \<^verbatim>\<open>QIIME 2\<close>, or the second or the third segment
  has no colon. What stands before the colons and in the fourth segment is not checked. A
  text made from the template with version strings that hold no colon and no newline parses
  to the pair of the two strings, each with its surrounding whitespace stripped.
\<close>

theorem get_versions_accepts_iff:
  "(get_versions (Inr contents) = Inl ValueError_malformed_VERSION \<longleftrightarrow> \<not> accepted_shape contents)
   \<and> (\<forall>e. get_versions opened = Inl e \<longrightarrow> e = ValueError_malformed_VERSION)
   \<and> (CHR ''\<newline>'' \<notin> set v \<and> CHR ''\<newline>'' \<notin> set f \<and> CHR '':'' \<notin> set v \<and> CHR '':'' \<notin> set f
        \<longrightarrow> get_versions (Inr (VERSION_TEMPLATE v f)) = Inr (py_strip v, py_strip f))"
  using get_versions_malformed_iff [of contents] get_versions_only_error [of opened]
    get_versions_template [of v f]
  by blast

theorem get_versions_accepts_iff_witness:
  "get_versions (Inr (VERSION_TEMPLATE ''5'' ''2023.2.0'')) = Inr (''5'', ''2023.2.0'')
   \<and> get_versions (Inr ''QIIME 2'') = Inl ValueError_malformed_VERSION
   \<and> \<not> accepted_shape ''QIIME 2''
   \<and> get_versions (Inr (VERSION_TEMPLATE [CHR ''5'', CHR 0x85] [CHR 0xA0, CHR ''7'']))
       = Inr (''5'', ''7'')"
proof -
  have n: "CHR ''\<newline>'' \<notin> set ''5'' \<and> CHR ''\<newline>'' \<notin> set ''2023.2.0''
           \<and> CHR '':'' \<notin> set ''5'' \<and> CHR '':'' \<notin> set ''2023.2.0''"
    by simp
  have s: "py_strip ''5'' = ''5''" "py_strip ''2023.2.0'' = ''2023.2.0''"
    by (simp_all add: py_strip_def is_space_def)
  have a: "\<not> accepted_shape ''QIIME 2''"
    by (simp add: accepted_shape_def)
  have n': "CHR ''\<newline>'' \<notin> set [CHR ''5'', CHR 0x85] \<and> CHR ''\<newline>'' \<notin> set [CHR 0xA0, CHR ''7'']
            \<and> CHR '':'' \<notin> set [CHR ''5'', CHR 0x85] \<and> CHR '':'' \<notin> set [CHR 0xA0, CHR ''7'']"
    by simp
  have s': "py_strip [CHR ''5'', CHR 0x85] = ''5''" "py_strip [CHR 0xA0, CHR ''7''] = ''7''"
    by (simp_all add: py_strip_def is_space_def)
  show ?thesis
    using get_versions_accepts_iff [of "''QIIME 2''" "Inr ''QIIME 2''" "''5''" "''2023.2.0''"]
      get_versions_accepts_iff [of "''QIIME 2''" "Inr ''QIIME 2''" "[CHR ''5'', CHR 0x85]"
                                   "[CHR 0xA0, CHR ''7'']"]
      n s a n' s'
    by simp
qed
section \<open>Extraction stays inside the destination's parent\<close>

lemma inside_append: "''..'' \<notin> set rest \<Longrightarrow> inside d (d @ rest)"
  by (simp add: inside_def)

lemma sanitize_no_dotdot: "''..'' \<notin> set (sanitize_arcname name)"
  by (simp add: sanitize_arcname_def)

lemma os_mkdir_frame:
  assumes "os_mkdir p fs = (r, fs')" "fs' q \<noteq> fs q"
  shows "q = p \<and> fs q = None \<and> fs' q = Some Dir"
  using assms
  by (auto simp: os_mkdir_def path_exists_def node_at_def split: if_splits)

lemma makedirs_frame:
  "makedirs p fs = (r, fs') \<Longrightarrow> fs' q \<noteq> fs q \<Longrightarrow> prefix q p \<and> fs q = None \<and> fs' q = Some Dir"
proof (induction p fs arbitrary: r fs' rule: makedirs.induct)
  case (1 name fs)
  show ?case
  proof (cases "name \<noteq> [] \<and> \<not> path_exists fs (parent name)")
    case False
    then have "os_mkdir name fs = (r, fs')"
      using "1.prems"(1) by (subst (asm) makedirs.simps) auto
    then show ?thesis
      using os_mkdir_frame "1.prems"(2) by blast
  next
    case True
    obtain r1 fs1 where m: "makedirs (parent name) fs = (r1, fs1)"
      by (cases "makedirs (parent name) fs")
    have k: "os_mkdir name fs1 = (r, fs') \<or> (fs' = fs1)"
      using "1.prems"(1) True m
      by (subst (asm) makedirs.simps) (auto split: sum.splits if_splits)
    have pp: "prefix (parent name) name"
      by (simp add: parent_def prefix_def) (metis append_butlast_last_id True)
    show ?thesis
    proof (cases "fs1 q = fs q")
      case True
      then have "fs' q \<noteq> fs1 q" using "1.prems"(2) by simp
      then have "q = name \<and> fs1 q = None \<and> fs' q = Some Dir"
        using k os_mkdir_frame by blast
      then show ?thesis using True by auto
    next
      case False
      then have ih: "prefix q (parent name) \<and> fs q = None \<and> fs1 q = Some Dir"
        using "1.IH" [OF True m] by simp
      have "fs' q = fs1 q"
      proof (rule ccontr)
        assume "fs' q \<noteq> fs1 q"
        then have "fs1 q = None" using k os_mkdir_frame by blast
        then show False using ih by simp
      qed
      then show ?thesis using ih pp by (auto intro: prefix_order.trans)
    qed
  qed
qed

lemma write_file_frame:
  "write_file p d fs = (r, fs') \<Longrightarrow> fs' q \<noteq> fs q \<Longrightarrow> q = p"
  by (auto simp: write_file_def split: if_splits)

lemma extract_member_frame:
  "extract_member name d tp fs = (r, fs') \<Longrightarrow> fs' q \<noteq> fs q \<Longrightarrow> q = tp"
  by (auto simp: extract_member_def split: if_splits sum.splits prod.splits
           dest: os_mkdir_frame write_file_frame)


lemma changes_within_refl: "changes_within t fs fs"
  by (simp add: changes_within_def)

lemma changes_withinD:
  "changes_within t fs fs' \<Longrightarrow> fs' q \<noteq> fs q \<Longrightarrow>
     inside t q \<or> (strict_prefix q t \<and> fs q = None \<and> fs' q = Some Dir)"
  by (simp add: changes_within_def)

lemma changes_within_trans:
  assumes a: "changes_within t fs fs1" and b: "changes_within t fs1 fs2"
  shows "changes_within t fs fs2"
  unfolding changes_within_def
proof (intro allI impI)
  fix q
  assume c: "fs2 q \<noteq> fs q"
  show "inside t q \<or> (strict_prefix q t \<and> fs q = None \<and> fs2 q = Some Dir)"
  proof (cases "fs1 q = fs q")
    case True
    then have "fs2 q \<noteq> fs1 q" using c by simp
    then show ?thesis using changes_withinD [OF b, of q] True by simp
  next
    case False
    then have d: "inside t q \<or> (strict_prefix q t \<and> fs q = None \<and> fs1 q = Some Dir)"
      using changes_withinD [OF a, of q] by simp
    show ?thesis
    proof (cases "fs2 q = fs1 q")
      case True
      then show ?thesis using d by auto
    next
      case False
      then have "inside t q \<or> (strict_prefix q t \<and> fs1 q = None \<and> fs2 q = Some Dir)"
        using changes_withinD [OF b, of q] by simp
      then show ?thesis using d by auto
    qed
  qed
qed

lemma prefix_of_target_path:
  assumes "prefix q (t @ s)" "''..'' \<notin> set s"
  shows "inside t q \<or> strict_prefix q t"
proof -
  from assms(1) have "prefix q t \<or> (\<exists>us. q = t @ us \<and> prefix us s)"
    by (simp add: prefix_append)
  then show ?thesis
  proof
    assume "prefix q t"
    then show ?thesis
      by (cases "q = t") (auto simp: inside_def strict_prefix_def)
  next
    assume "\<exists>us. q = t @ us \<and> prefix us s"
    then obtain us where u: "q = t @ us" "prefix us s" by blast
    then have "set us \<subseteq> set s" by (auto simp: prefix_def)
    then show ?thesis using u assms(2) by (auto simp: inside_def)
  qed
qed

lemma makedirs_changes_within:
  assumes "makedirs (parent (t @ s)) fs = (r, fs')" "''..'' \<notin> set s"
  shows "changes_within t fs fs'"
  unfolding changes_within_def
proof (intro allI impI)
  fix q
  assume "fs' q \<noteq> fs q"
  then have m: "prefix q (parent (t @ s)) \<and> fs q = None \<and> fs' q = Some Dir"
    using makedirs_frame [OF assms(1)] by simp
  have "prefix (parent (t @ s)) (t @ s)"
    by (simp add: parent_def prefixeq_butlast)
  then have "prefix q (t @ s)"
    using m by (auto intro: prefix_order.trans)
  then show "inside t q \<or> (strict_prefix q t \<and> fs q = None \<and> fs' q = Some Dir)"
    using prefix_of_target_path [OF _ assms(2)] m by blast
qed

lemma extract_member_changes_within:
  assumes "extract_member name d (t @ s) fs = (r, fs')" "''..'' \<notin> set s"
  shows "changes_within t fs fs'"
  unfolding changes_within_def
proof (intro allI impI)
  fix q
  assume "fs' q \<noteq> fs q"
  then have "q = t @ s" by (rule extract_member_frame [OF assms(1)])
  then have "inside t q" using assms(2) by (simp add: inside_def)
  then show "inside t q \<or> (strict_prefix q t \<and> fs q = None \<and> fs' q = Some Dir)" ..
qed

lemma zf_extract_changes_within:
  assumes "zf_extract z name t fs = (r, fs')"
  shows "changes_within t fs fs'"
proof (cases "zip_read z name")
  case (Inl e)
  then show ?thesis using assms by (simp add: zf_extract_def changes_within_refl)
next
  case (Inr d)
  let ?s = "sanitize_arcname name"
  note nd = sanitize_no_dotdot [of name]
  show ?thesis
  proof (cases "path_exists fs (parent (t @ ?s))")
    case True
    then have "extract_member name d (t @ ?s) fs = (r, fs')"
      using assms Inr by (simp add: zf_extract_def Let_def)
    then show ?thesis by (rule extract_member_changes_within [OF _ nd])
  next
    case False
    obtain r1 fs1 where m: "makedirs (parent (t @ ?s)) fs = (r1, fs1)"
      by (cases "makedirs (parent (t @ ?s)) fs")
    note w1 = makedirs_changes_within [OF m nd]
    show ?thesis
    proof (cases r1)
      case (Inl e)
      then have "fs' = fs1"
        using assms Inr False m by (simp add: zf_extract_def Let_def)
      then show ?thesis using w1 by simp
    next
      case (Inr u)
      then have "extract_member name d (t @ ?s) fs1 = (r, fs')"
        using assms \<open>zip_read z name = Inr d\<close> False m by (simp add: zf_extract_def Let_def)
      then have "changes_within t fs1 fs'" by (rule extract_member_changes_within [OF _ nd])
      then show ?thesis using w1 by (rule changes_within_trans [rotated])
    qed
  qed
qed

lemma extract_members_changes_within:
  "extract_members z u t names fs = (r, fs') \<Longrightarrow> changes_within t fs fs'"
proof (induction names arbitrary: fs)
  case Nil
  then show ?case by (simp add: changes_within_refl)
next
  case (Cons name names)
  show ?case
  proof (cases "startswith name u")
    case False
    then show ?thesis using Cons by simp
  next
    case True
    obtain r1 fs1 where z: "zf_extract z name t fs = (r1, fs1)"
      by (cases "zf_extract z name t fs")
    note w1 = zf_extract_changes_within [OF z]
    show ?thesis
    proof (cases r1)
      case (Inl e)
      then have "fs' = fs1" using Cons.prems True z by simp
      then show ?thesis using w1 by simp
    next
      case (Inr p)
      then have "extract_members z u t names fs1 = (r, fs')"
        using Cons.prems True z by simp
      then have "changes_within t fs1 fs'" by (rule Cons.IH)
      then show ?thesis using w1 by (rule changes_within_trans [rotated])
    qed
  qed
qed

lemma ZipArchive_extract_changes_within:
  assumes "ZipArchive_extract self filepath fs = (r, fs')"
  shows "changes_within (parent filepath) fs fs'"
proof (cases "basename filepath \<noteq> uuid self")
  case True
  then show ?thesis using assms by (simp add: ZipArchive_extract_def changes_within_refl)
next
  case False
  show ?thesis
  proof (cases "zip_open fs (path self)")
    case (Inl e)
    then show ?thesis using assms False by (simp add: ZipArchive_extract_def changes_within_refl)
  next
    case (Inr z)
    obtain r1 fs1 where m: "extract_members z (uuid self) (parent filepath) (namelist z) fs = (r1, fs1)"
      by (cases "extract_members z (uuid self) (parent filepath) (namelist z) fs")
    then have "fs' = fs1"
      using assms False Inr by (auto simp: ZipArchive_extract_def split: sum.splits)
    then show ?thesis using extract_members_changes_within [OF m] by simp
  qed
qed


text \<open>
  C2. Whatever the container holds, and whether \<^verbatim>\<open>_ZipArchive.extract\<close> returns or raises,
  every path it changes lies inside the parent directory of the destination, continued by
  components none of which is \<^verbatim>\<open>..\<close>; the only other change is that directories above
  that parent which did not exist are made. No member is written anywhere else.
\<close>

theorem ZipArchive_extract_stays_inside:
  assumes "ZipArchive_extract self filepath fs = (r, fs')" and "fs' q \<noteq> fs q"
  shows "inside (parent filepath) q
         \<or> (strict_prefix q (parent filepath) \<and> fs q = None \<and> fs' q = Some Dir)"
  using assms(2) by (rule changes_withinD [OF ZipArchive_extract_changes_within [OF assms(1)]])


theorem ZipArchive_extract_stays_inside_witness:
  "ZipArchive_init climbing_fs [''tmp'', ''evil.qza''] = Inr climbing_archive
   \<and> snd (ZipArchive_extract climbing_archive [''out'', ''work'', example_uuid] climbing_fs)
         [''out'', ''work'', example_uuid, ''etc'', ''passwd''] = Some (File ''x'')
   \<and> climbing_fs [''out'', ''work'', example_uuid, ''etc'', ''passwd''] = None
   \<and> inside [''out'', ''work''] [''out'', ''work'', example_uuid, ''etc'', ''passwd'']"
proof -
  let ?q = "[''out'', ''work'', example_uuid, ''etc'', ''passwd'']"
  let ?e = "ZipArchive_extract climbing_archive [''out'', ''work'', example_uuid] climbing_fs"
  have i: "ZipArchive_init climbing_fs [''tmp'', ''evil.qza''] = Inr climbing_archive"
    by code_simp
  have a: "snd ?e ?q = Some (File ''x'')"
    by code_simp
  have b: "climbing_fs ?q = None"
    by code_simp
  have c: "snd ?e ?q \<noteq> climbing_fs ?q"
    using a b by simp
  have p: "?e = (fst ?e, snd ?e)"
    by simp
  have n: "\<not> strict_prefix ?q (parent [''out'', ''work'', example_uuid])"
    by (simp add: parent_def strict_prefix_def)
  have "inside (parent [''out'', ''work'', example_uuid]) ?q"
    using ZipArchive_extract_stays_inside [OF p c] n by blast
  then show ?thesis
    using i a b by (simp add: parent_def)
qed

section \<open>The root rule of archive backends\<close>

lemma as_zip_path_empty: "as_zip_path (posix_parts []) = []"
  by (simp add: as_zip_path_def posix_parts_def posix_str_def startswith_def)

lemma startswith_Nil: "startswith s []"
  by (simp add: startswith_def)

lemma zip_iterdir_loop_set:
  "set (zip_iterdir_loop [] seen names) =
     (\<lambda>n. hd (posix_parts n)) ` {n \<in> set names. posix_parts n \<noteq> []} - set seen"
proof (induction names arbitrary: seen)
  case Nil
  then show ?case by simp
next
  case (Cons a names)
  show ?case
  proof (cases "posix_parts a")
    case Nil
    then show ?thesis using Cons by (auto simp: startswith_Nil)
  next
    case (Cons r rest)
    then have "{n \<in> set (a # names). posix_parts n \<noteq> []}
                 = insert a {n \<in> set names. posix_parts n \<noteq> []}"
      by auto
    then have "(\<lambda>n. hd (posix_parts n)) ` {n \<in> set (a # names). posix_parts n \<noteq> []}
                 = insert r ((\<lambda>n. hd (posix_parts n)) ` {n \<in> set names. posix_parts n \<noteq> []})"
      using Cons by (simp only: image_insert) simp
    then show ?thesis using Cons Cons.IH by (auto simp: startswith_Nil)
  qed
qed

lemma iterdir_visible_roots:
  "set [r \<leftarrow> zip_iterdir_loop [] [] (namelist z). \<not> startswith r ''.''] = visible_roots z"
  by (auto simp: zip_iterdir_loop_set visible_roots_def top_level_entries_def)

lemma finite_visible_roots: "finite (visible_roots z)"
  by (simp add: visible_roots_def top_level_entries_def)

lemma get_uuid_by_roots:
  assumes "set [r \<leftarrow> listing. \<not> startswith r ''.''] = R"
  shows "get_uuid p True (Inr listing) =
           (if R = {} then Inl ValueError_no_visible_root
            else if 1 < card R then Inl ValueError_multiple_roots
            else if is_uuid4 (the_elem R) then Inr (the_elem R)
            else Inl (ValueError_invalid_uuid (the_elem R)))"
proof -
  define xs where "xs = remdups [r \<leftarrow> listing. \<not> startswith r ''.'']"
  have d: "distinct xs" and s: "set xs = R"
    using assms by (simp_all add: xs_def)
  have g: "get_uuid p True (Inr listing) =
             (case xs of
                [] \<Rightarrow> Inl ValueError_no_visible_root
              | [u] \<Rightarrow> if \<not> is_uuid4 u then Inl (ValueError_invalid_uuid u) else Inr u
              | _ \<Rightarrow> Inl ValueError_multiple_roots)"
    by (simp add: get_uuid_def xs_def)
  show ?thesis
  proof (cases xs)
    case Nil
    then show ?thesis using g s by simp
  next
    case (Cons u rest)
    note c = Cons
    show ?thesis
    proof (cases rest)
      case Nil
      then have "R = {u}" using c s by auto
      then show ?thesis using g c Nil by simp
    next
      case (Cons v rest')
      then have "card R = Suc (Suc (length rest'))"
        using c d s distinct_card [of xs] by simp
      moreover have "R \<noteq> {}" using c s by auto
      ultimately show ?thesis using g c Cons by simp
    qed
  qed
qed

lemma ZipArchive_init_uuid:
  assumes "zip_open fs p = Inr z"
  shows "get_uuid p (path_exists fs p) (ZipArchive_relative_iterdir fs p []) =
           (if visible_roots z = {} then Inl ValueError_no_visible_root
            else if 1 < card (visible_roots z) then Inl ValueError_multiple_roots
            else if is_uuid4 (the_elem (visible_roots z)) then Inr (the_elem (visible_roots z))
            else Inl (ValueError_invalid_uuid (the_elem (visible_roots z))))"
proof -
  have e: "path_exists fs p"
    using assms by (auto simp: zip_open_def path_exists_def split: option.splits)
  have l: "ZipArchive_relative_iterdir fs p [] = Inr (zip_iterdir_loop [] [] (namelist z))"
    using assms by (simp add: ZipArchive_relative_iterdir_def as_zip_path_empty)
  show ?thesis
    unfolding l using e get_uuid_by_roots [OF iterdir_visible_roots, of p z] by simp
qed

lemma ZipArchive_init_root_errors:
  assumes "zip_open fs p = Inr z"
  shows "visible_roots z = {} \<Longrightarrow> ZipArchive_init fs p = Inl ValueError_no_visible_root"
    and "1 < card (visible_roots z) \<Longrightarrow> ZipArchive_init fs p = Inl ValueError_multiple_roots"
    and "visible_roots z = {u} \<Longrightarrow> \<not> is_uuid4 u \<Longrightarrow> ZipArchive_init fs p = Inl (ValueError_invalid_uuid u)"
    and "ZipArchive_init fs p = Inr a \<Longrightarrow> visible_roots z = {uuid a} \<and> is_uuid4 (uuid a)"
proof -
  note u = ZipArchive_init_uuid [OF assms]
  show "visible_roots z = {} \<Longrightarrow> ZipArchive_init fs p = Inl ValueError_no_visible_root"
    by (simp add: ZipArchive_init_def u)
  show "1 < card (visible_roots z) \<Longrightarrow> ZipArchive_init fs p = Inl ValueError_multiple_roots"
    by (auto simp: ZipArchive_init_def u)
  show "visible_roots z = {u} \<Longrightarrow> \<not> is_uuid4 u \<Longrightarrow> ZipArchive_init fs p = Inl (ValueError_invalid_uuid u)"
    by (simp add: ZipArchive_init_def u)
  show "visible_roots z = {uuid a} \<and> is_uuid4 (uuid a)" if i: "ZipArchive_init fs p = Inr a"
  proof -
    have n: "visible_roots z \<noteq> {}" "\<not> 1 < card (visible_roots z)" "is_uuid4 (the_elem (visible_roots z))"
      and ua: "uuid a = the_elem (visible_roots z)"
      using i unfolding ZipArchive_init_def u
      by (auto split: if_splits sum.splits prod.splits)
    have "card (visible_roots z) = 1"
      using n finite_visible_roots [of z] by (cases "card (visible_roots z)") auto
    then obtain r where "visible_roots z = {r}"
      by (auto simp: card_1_singleton_iff)
    then show ?thesis using n ua by simp
  qed
qed

lemma NoOpArchive_init_uuid: "NoOpArchive_init fs q = Inr a \<Longrightarrow> uuid a = basename q"
  by (auto simp: NoOpArchive_init_def NoOpArchive_get_uuid_def Let_def split: sum.splits prod.splits)

lemma NoOpArchive_init_error:
  "NoOpArchive_init fs q = Inl e \<Longrightarrow> e = ValueError_malformed_VERSION"
  using get_versions_only_error
  by (auto simp: NoOpArchive_init_def Let_def split: sum.splits prod.splits)

text \<open>
  C3, as stated, fails for the directory variant: \<^verbatim>\<open>_NoOpArchive\<close> overrides
  \<^verbatim>\<open>_get_uuid\<close> and is constructed over a directory whose name is not a version-4 UUID
  (and which holds two visible entries).
\<close>

theorem NoOpArchive_unchecked_counterexample:
  "NoOpArchive_init example_fs [''pool'', ''results'']
     = Inr \<lparr>archive_type = NoOpArchive, path = [''pool'', ''results''], uuid = ''results'',
            version = ''5'', framework_version = ''2023.2.0''\<rparr>
   \<and> \<not> is_uuid4 ''results''"
  by code_simp

text \<open>
  C3, amended. Constructing the container variant \<^verbatim>\<open>_ZipArchive\<close> over a container fails
  with the missing-root error when the container has no visible top-level entry, with the
  multiple-roots error when it has more than one, and with the invalid-UUID error when the
  single one is not a version-4 UUID; a backend that is constructed has exactly one visible
  top-level entry, a version-4 UUID, as its \<open>uuid\<close>. The result is an error or a complete
  backend. The directory variant \<^verbatim>\<open>_NoOpArchive\<close> makes no such check: its \<open>uuid\<close> is the
  base name of its path, and its construction fails only on a malformed VERSION file.
\<close>

theorem ZipArchive_init_root_rule:
  assumes "zip_open fs p = Inr z"
  shows "(visible_roots z = {} \<longrightarrow> ZipArchive_init fs p = Inl ValueError_no_visible_root)
       \<and> (1 < card (visible_roots z) \<longrightarrow> ZipArchive_init fs p = Inl ValueError_multiple_roots)
       \<and> (visible_roots z = {u} \<and> \<not> is_uuid4 u
            \<longrightarrow> ZipArchive_init fs p = Inl (ValueError_invalid_uuid u))
       \<and> (ZipArchive_init fs p = Inr a \<longrightarrow> visible_roots z = {uuid a} \<and> is_uuid4 (uuid a))
       \<and> (NoOpArchive_init fs q = Inr b \<longrightarrow> uuid b = basename q)
       \<and> (NoOpArchive_init fs q = Inl e \<longrightarrow> e = ValueError_malformed_VERSION)"
proof (intro conjI impI)
  show "ZipArchive_init fs p = Inl ValueError_no_visible_root" if "visible_roots z = {}"
    using that by (rule ZipArchive_init_root_errors(1) [OF assms])
  show "ZipArchive_init fs p = Inl ValueError_multiple_roots" if "1 < card (visible_roots z)"
    using that by (rule ZipArchive_init_root_errors(2) [OF assms])
  show "ZipArchive_init fs p = Inl (ValueError_invalid_uuid u)"
    if "visible_roots z = {u} \<and> \<not> is_uuid4 u"
    using that ZipArchive_init_root_errors(3) [OF assms, of u] by simp
  show "visible_roots z = {uuid a}" "is_uuid4 (uuid a)" if "ZipArchive_init fs p = Inr a"
    using that ZipArchive_init_root_errors(4) [OF assms, of a] by simp_all
  show "uuid b = basename q" if "NoOpArchive_init fs q = Inr b"
    using that by (rule NoOpArchive_init_uuid)
  show "e = ValueError_malformed_VERSION" if "NoOpArchive_init fs q = Inl e"
    using that by (rule NoOpArchive_init_error)
qed

theorem ZipArchive_init_root_rule_witness:
  "ZipArchive_init example_fs [''tmp'', ''hidden.zip''] = Inl ValueError_no_visible_root
   \<and> ZipArchive_init example_fs [''tmp'', ''two.zip''] = Inl ValueError_multiple_roots
   \<and> ZipArchive_init example_fs [''tmp'', ''named.zip''] = Inl (ValueError_invalid_uuid ''results'')
   \<and> visible_roots example_container = {example_uuid} \<and> is_uuid4 example_uuid
   \<and> basename [''pool'', ''results''] = ''results''
   \<and> NoOpArchive_init example_fs [''pool''] = Inl ValueError_malformed_VERSION"
proof -
  have o: "zip_open example_fs [''tmp'', ''hidden.zip''] = Inr [(''.git/config'', ''x'')]"
    "zip_open example_fs [''tmp'', ''two.zip''] = Inr [(''a/VERSION'', ''x''), (''b/VERSION'', ''y'')]"
    "zip_open example_fs [''tmp'', ''named.zip''] = Inr [(''results/VERSION'', ''x'')]"
    "zip_open example_fs [''tmp'', ''a.qza''] = Inr example_container"
    by (simp_all add: zip_open_def node_at_def example_fs_def)
  have r: "visible_roots [(''.git/config'', ''x'')] = {}"
    "visible_roots [(''a/VERSION'', ''x''), (''b/VERSION'', ''y'')] = {''a'', ''b''}"
    "visible_roots [(''results/VERSION'', ''x'')] = {''results''}"
    by code_simp+
  have c: "1 < card {''a'', ''b''}" "\<not> is_uuid4 ''results''"
    by (simp_all add: is_uuid4_def)
  have a: "ZipArchive_init example_fs [''tmp'', ''a.qza'']
             = Inr \<lparr>archive_type = ZipArchive, path = [''tmp'', ''a.qza''], uuid = example_uuid,
                    version = ''5'', framework_version = ''2023.2.0''\<rparr>"
    by code_simp
  have w1: "ZipArchive_init example_fs [''tmp'', ''hidden.zip''] = Inl ValueError_no_visible_root"
    using ZipArchive_init_root_rule [OF o(1), THEN conjunct1] r(1) by (rule mp)
  have w2: "ZipArchive_init example_fs [''tmp'', ''two.zip''] = Inl ValueError_multiple_roots"
    using ZipArchive_init_root_rule [OF o(2), THEN conjunct2, THEN conjunct1] c(1)
    unfolding r(2) by (rule mp)
  have w3: "ZipArchive_init example_fs [''tmp'', ''named.zip''] = Inl (ValueError_invalid_uuid ''results'')"
    using ZipArchive_init_root_rule [OF o(3), THEN conjunct2, THEN conjunct2, THEN conjunct1, of "''results''"]
      r(3) c(2) by (rule_tac mp) blast+
  have w4: "visible_roots example_container = {example_uuid} \<and> is_uuid4 example_uuid"
    using ZipArchive_init_root_rule [OF o(4), THEN conjunct2, THEN conjunct2, THEN conjunct2,
        THEN conjunct1, THEN mp, OF a]
    by simp
  have n: "NoOpArchive_init example_fs [''pool'', ''results'']
             = Inr \<lparr>archive_type = NoOpArchive, path = [''pool'', ''results''], uuid = ''results'',
                    version = ''5'', framework_version = ''2023.2.0''\<rparr>"
    by code_simp
  have w5: "basename [''pool'', ''results''] = ''results''"
    using ZipArchive_init_root_rule [OF o(4), THEN conjunct2, THEN conjunct2, THEN conjunct2,
        THEN conjunct2, THEN conjunct1, THEN mp, OF n]
    by simp
  have m: "NoOpArchive_init example_fs [''pool''] = Inl ValueError_malformed_VERSION"
    by code_simp
  have w6: "NoOpArchive_init example_fs [''pool''] = Inl ValueError_malformed_VERSION"
    using ZipArchive_init_root_rule [OF o(4), THEN conjunct2, THEN conjunct2, THEN conjunct2,
        THEN conjunct2, THEN conjunct2, THEN mp, OF m] m
    by simp
  show ?thesis
    using w1 w2 w3 w4 w5 w6 by simp
qed

section \<open>Mounting and extracting\<close>

lemma list_all2_setD:
  "list_all2 P xs ys \<Longrightarrow> c \<in> set ys \<Longrightarrow> \<exists>p \<in> set xs. P p c"
  by (induction rule: list_all2_induct) auto

lemma is_uuid4_char:
  assumes "is_uuid4 u" "c \<in> set u"
  shows "is_hex c \<or> c = CHR ''-''"
proof -
  have "list_all2 uuid4_char ''xxxxxxxx-xxxx-4xxx-yxxx-xxxxxxxxxxxx'' u"
    using assms(1) unfolding is_uuid4_def .
  from list_all2_setD [OF this assms(2)]
  obtain p where p: "p \<in> set ''xxxxxxxx-xxxx-4xxx-yxxx-xxxxxxxxxxxx''" "uuid4_char p c"
    by (elim bexE)
  have "p = CHR ''x'' \<or> p = CHR ''y'' \<or> p = CHR ''-'' \<or> p = CHR ''4''"
    using p(1) by simp blast
  then show ?thesis
    using p(2) by (auto simp: uuid4_char_def is_hex_def)
qed

lemma is_uuid4_length: "is_uuid4 u \<Longrightarrow> length u = 36"
  by (auto simp: is_uuid4_def dest: list_all2_lengthD)

lemma is_uuid4_plain:
  assumes "is_uuid4 u"
  shows "CHR ''/'' \<notin> set u" "u \<noteq> []" "u \<noteq> ''.''" "u \<noteq> ''..''" "u \<noteq> ''/''" "u \<noteq> ''//''"
    "\<not> startswith u ''.''"
proof -
  show "CHR ''/'' \<notin> set u"
    using is_uuid4_char [OF assms, of "CHR ''/''"] by (auto simp: is_hex_def)
  show "u \<noteq> []" "u \<noteq> ''.''" "u \<noteq> ''..''" "u \<noteq> ''/''" "u \<noteq> ''//''"
    using is_uuid4_length [OF assms] by auto
  show "\<not> startswith u ''.''"
  proof
    assume "startswith u ''.''"
    then have "CHR ''.'' \<in> set u"
      by (cases u) (auto simp: startswith_def)
    then show False
      using is_uuid4_char [OF assms, of "CHR ''.''"] by (auto simp: is_hex_def)
  qed
qed

lemma posix_parts_plain:
  assumes "CHR ''/'' \<notin> set u" "u \<noteq> []" "u \<noteq> ''.''"
  shows "posix_parts u = [u]"
proof -
  have "\<not> startswith u ''/''"
    using assms by (cases u) (auto simp: startswith_def)
  moreover have "\<not> startswith u ''//''"
    using assms by (cases u) (auto simp: startswith_def)
  ultimately show ?thesis
    using assms by (simp add: posix_parts_def split_on_no_sep)
qed

lemma member_name_VERSION:
  assumes "is_uuid4 u"
  shows "as_zip_path (pathlib_join (posix_parts u) (posix_parts VERSION_FILE)) = u @ ''/VERSION''"
proof -
  note p = is_uuid4_plain [OF assms]
  have v: "posix_parts VERSION_FILE = [''VERSION'']"
    by (simp add: VERSION_FILE_def posix_parts_def startswith_def)
  have "u @ ''/VERSION'' \<noteq> ''.''"
    using p by (cases u) auto
  then show ?thesis
    using p by (simp add: posix_parts_plain v pathlib_join_def as_zip_path_def posix_str_def)
qed

lemma sanitize_member_VERSION:
  assumes "is_uuid4 u"
  shows "sanitize_arcname (u @ ''/VERSION'') = [u, ''VERSION'']"
  using is_uuid4_plain [OF assms] split_on_first_sep [of "CHR ''/''" u "''VERSION''"]
  by (simp add: sanitize_arcname_def)

lemma startswith_append: "startswith (u @ s) u"
  by (simp add: startswith_def)

lemma zip_read_in_namelist: "zip_read z name = Inr d \<Longrightarrow> name \<in> set (namelist z)"
proof -
  assume "zip_read z name = Inr d"
  then have "map_of (rev z) name = Some d"
    by (simp add: zip_read_def split: option.splits)
  then have "(name, d) \<in> set z"
    using map_of_SomeD [of "rev z" name d] by simp
  then show ?thesis
    by (force simp: namelist_def)
qed

lemma ZipArchive_init_facts:
  assumes "ZipArchive_init fs p = Inr a"
  shows "\<exists>z. zip_open fs p = Inr z \<and> uuid a @ ''/VERSION'' \<in> set (namelist z)"
    and "is_uuid4 (uuid a)" and "path a = p" and "archive_type a = ZipArchive"
proof -
  obtain u where u: "get_uuid p (path_exists fs p) (ZipArchive_relative_iterdir fs p []) = Inr u"
    using assms by (auto simp: ZipArchive_init_def split: sum.splits)
  obtain v f where v: "get_versions (ZipArchive_open fs p u VERSION_FILE) = Inr (v, f)"
    using assms u by (auto simp: ZipArchive_init_def split: sum.splits)
  have a: "a = \<lparr>archive_type = ZipArchive, path = p, uuid = u, version = v, framework_version = f\<rparr>"
    using assms u v by (simp add: ZipArchive_init_def)
  show "path a = p" "archive_type a = ZipArchive" using a by simp_all
  show i: "is_uuid4 (uuid a)"
    using u a by (auto simp: get_uuid_def split: if_splits sum.splits list.splits)
  obtain t where "ZipArchive_open fs p u VERSION_FILE = Inr t"
    using v by (cases "ZipArchive_open fs p u VERSION_FILE") (auto simp: get_versions_def)
  then obtain z d where "zip_open fs p = Inr z" "zip_read z (u @ ''/VERSION'') = Inr d"
    using i a by (auto simp: ZipArchive_open_def member_name_VERSION split: sum.splits)
  then show "\<exists>z. zip_open fs p = Inr z \<and> uuid a @ ''/VERSION'' \<in> set (namelist z)"
    using a zip_read_in_namelist by auto
qed


lemma path_exists_iff: "path_exists fs q \<longleftrightarrow> q = [] \<or> fs q \<noteq> None"
  by (simp add: path_exists_def node_at_def)

lemma os_mkdir_keeps:
  "os_mkdir p fs = (r, fs') \<Longrightarrow> path_exists fs q \<Longrightarrow> path_exists fs' q"
  by (auto simp: os_mkdir_def path_exists_iff split: if_splits)

lemma makedirs_keeps:
  "makedirs p fs = (r, fs') \<Longrightarrow> path_exists fs q \<Longrightarrow> path_exists fs' q"
proof -
  assume m: "makedirs p fs = (r, fs')" and e: "path_exists fs q"
  show ?thesis
  proof (cases "fs' q = fs q")
    case True
    then show ?thesis using e by (simp add: path_exists_iff)
  next
    case False
    then show ?thesis using makedirs_frame [OF m, of q] by (simp add: path_exists_iff)
  qed
qed

lemma write_file_keeps:
  "write_file p d fs = (r, fs') \<Longrightarrow> path_exists fs q \<Longrightarrow> path_exists fs' q"
  by (auto simp: write_file_def path_exists_iff split: if_splits)

lemma extract_member_keeps:
  "extract_member name d tp fs = (r, fs') \<Longrightarrow> path_exists fs q \<Longrightarrow> path_exists fs' q"
  by (auto simp: extract_member_def split: if_splits sum.splits prod.splits
           dest: os_mkdir_keeps write_file_keeps)

lemma zf_extract_keeps:
  assumes "zf_extract z name t fs = (r, fs')" "path_exists fs q"
  shows "path_exists fs' q"
proof (cases "zip_read z name")
  case (Inl e)
  then show ?thesis using assms by (simp add: zf_extract_def)
next
  case (Inr d)
  let ?tp = "t @ sanitize_arcname name"
  show ?thesis
  proof (cases "path_exists fs (parent ?tp)")
    case True
    then have "extract_member name d ?tp fs = (r, fs')"
      using assms Inr by (simp add: zf_extract_def Let_def)
    then show ?thesis using assms(2) by (rule extract_member_keeps)
  next
    case False
    obtain r1 fs1 where m: "makedirs (parent ?tp) fs = (r1, fs1)"
      by (cases "makedirs (parent ?tp) fs")
    note k1 = makedirs_keeps [OF m assms(2)]
    show ?thesis
    proof (cases r1)
      case (Inl e)
      then have "fs' = fs1"
        using assms Inr False m by (simp add: zf_extract_def Let_def)
      then show ?thesis using k1 by simp
    next
      case (Inr u)
      then have "extract_member name d ?tp fs1 = (r, fs')"
        using assms \<open>zip_read z name = Inr d\<close> False m by (simp add: zf_extract_def Let_def)
      then show ?thesis using k1 by (rule extract_member_keeps)
    qed
  qed
qed

lemma extract_members_keeps:
  "extract_members z u t names fs = (r, fs') \<Longrightarrow> path_exists fs q \<Longrightarrow> path_exists fs' q"
proof (induction names arbitrary: fs)
  case Nil
  then show ?case by simp
next
  case (Cons name names)
  show ?case
  proof (cases "startswith name u")
    case False
    then show ?thesis using Cons by simp
  next
    case True
    obtain r1 fs1 where z: "zf_extract z name t fs = (r1, fs1)"
      by (cases "zf_extract z name t fs")
    note k1 = zf_extract_keeps [OF z Cons.prems(2)]
    show ?thesis
    proof (cases r1)
      case (Inl e)
      then have "fs' = fs1" using Cons.prems True z by simp
      then show ?thesis using k1 by simp
    next
      case (Inr p)
      then have "extract_members z u t names fs1 = (r, fs')"
        using Cons.prems True z by simp
      then show ?thesis using k1 by (rule Cons.IH)
    qed
  qed
qed

lemma extract_member_written:
  "extract_member name d tp fs = (Inr p, fs') \<Longrightarrow> path_exists fs' tp"
  by (auto simp: extract_member_def os_mkdir_def write_file_def path_exists_iff isdir_def node_at_def
           split: if_splits sum.splits prod.splits)

lemma zf_extract_written:
  assumes "zf_extract z name t fs = (Inr p, fs')"
  shows "path_exists fs' (t @ sanitize_arcname name)"
proof -
  let ?tp = "t @ sanitize_arcname name"
  obtain d where d: "zip_read z name = Inr d"
    using assms by (cases "zip_read z name") (auto simp: zf_extract_def)
  show ?thesis
  proof (cases "path_exists fs (parent ?tp)")
    case True
    then have "extract_member name d ?tp fs = (Inr p, fs')"
      using assms d by (simp add: zf_extract_def Let_def)
    then show ?thesis by (rule extract_member_written)
  next
    case False
    obtain r1 fs1 where m: "makedirs (parent ?tp) fs = (r1, fs1)"
      by (cases "makedirs (parent ?tp) fs")
    then have "extract_member name d ?tp fs1 = (Inr p, fs')"
      using assms d False by (cases r1) (auto simp: zf_extract_def Let_def)
    then show ?thesis by (rule extract_member_written)
  qed
qed

lemma extract_members_written:
  "extract_members z u t names fs = (Inr x, fs') \<Longrightarrow> name \<in> set names \<Longrightarrow>
     startswith name u \<Longrightarrow> path_exists fs' (t @ sanitize_arcname name)"
proof (induction names arbitrary: fs)
  case Nil
  then show ?case by simp
next
  case (Cons n names)
  show ?case
  proof (cases "startswith n u")
    case False
    then show ?thesis using Cons by auto
  next
    case True
    obtain r1 fs1 where z: "zf_extract z n t fs = (r1, fs1)"
      by (cases "zf_extract z n t fs")
    then obtain p where r1: "r1 = Inr p" and rest: "extract_members z u t names fs1 = (Inr x, fs')"
      using Cons.prems(1) True by (cases r1) auto
    show ?thesis
    proof (cases "name = n")
      case True
      then have "path_exists fs1 (t @ sanitize_arcname name)"
        using zf_extract_written z r1 by blast
      then show ?thesis using extract_members_keeps [OF rest] by blast
    next
      case False
      then have "name \<in> set names" using Cons.prems(2) by simp
      then show ?thesis using Cons.IH [OF rest _ Cons.prems(3)] by simp
    qed
  qed
qed

lemma ZipArchive_mount_leaves_VERSION:
  assumes i: "ZipArchive_init fs p = Inr a"
    and m: "ZipArchive_mount a dest fs = (Inr r, fs')"
  shows "path_exists fs' (dest @ [''VERSION''])" and "r = mounted_record a dest"
proof -
  show r: "r = mounted_record a dest"
    using m by (auto simp: ZipArchive_mount_def split: if_splits sum.splits prod.splits)
  show "path_exists fs' (dest @ [''VERSION''])"
  proof (cases "path_exists fs (dest @ [''VERSION''])")
    case True
    then show ?thesis using m by (simp add: ZipArchive_mount_def)
  next
    case False
    then obtain x where e: "ZipArchive_extract a dest fs = (Inr x, fs')"
      using m by (auto simp: ZipArchive_mount_def split: sum.splits prod.splits)
    obtain z where z: "zip_open fs p = Inr z" "uuid a @ ''/VERSION'' \<in> set (namelist z)"
      using ZipArchive_init_facts(1) [OF i] by blast
    note u = ZipArchive_init_facts(2) [OF i] and pa = ZipArchive_init_facts(3) [OF i]
    have b: "basename dest = uuid a"
      using e by (auto simp: ZipArchive_extract_def split: if_splits)
    have ne: "dest \<noteq> []"
      using b is_uuid4_plain(2) [OF u] by (auto simp: basename_def split: if_splits)
    then have "last dest = uuid a"
      using b by (simp add: basename_def)
    then have d: "parent dest @ [uuid a] = dest"
      using append_butlast_last_id [OF ne] by (simp add: parent_def)
    obtain y where "extract_members z (uuid a) (parent dest) (namelist z) fs = (Inr y, fs')"
      using e b z pa by (auto simp: ZipArchive_extract_def split: sum.splits prod.splits)
    then have "path_exists fs' (parent dest @ sanitize_arcname (uuid a @ ''/VERSION''))"
      using z(2) startswith_append by (rule extract_members_written)
    then have "path_exists fs' ((parent dest @ [uuid a]) @ [''VERSION''])"
      by (simp add: sanitize_member_VERSION [OF u])
    then show ?thesis by (simp only: d)
  qed
qed

lemma NoOpArchive_init_type: "NoOpArchive_init fs p = Inr a \<Longrightarrow> archive_type a = NoOpArchive"
  by (auto simp: NoOpArchive_init_def Let_def split: sum.splits prod.splits)

lemma get_archive_cases:
  assumes "get_archive fs p = Inr a"
  shows "(archive_type a = ZipArchive \<and> ZipArchive_init fs p = Inr a)
         \<or> (archive_type a = NoOpArchive \<and> NoOpArchive_init fs p = Inr a)"
  using assms ZipArchive_init_facts(4) [of fs p a] NoOpArchive_init_type [of fs p a]
  by (auto simp: get_archive_def split: if_splits)

text \<open>
  C9. \<^verbatim>\<open>mount\<close> is idempotent. Into a destination that already holds a VERSION resource
  the container backend extracts nothing and returns the record of the backend and the
  destination; the directory backend never extracts. For a backend identified in a file
  system, a mount that succeeds leaves a file system in which mounting again into the same
  destination changes nothing and returns the same record.
\<close>

theorem mount_idempotent:
  assumes "get_archive fs p = Inr a"
  shows "(path_exists fs (dest @ [''VERSION''])
            \<longrightarrow> ZipArchive_mount a dest fs = (Inr (mounted_record a dest), fs))
       \<and> NoOpArchive_mount a dest fs = (Inr (mounted_record a dest), fs)
       \<and> (mount a dest fs = (Inr r, fs')
            \<longrightarrow> r = mounted_record a dest \<and> mount a dest fs' = (Inr r, fs'))"
proof (intro conjI impI)
  show "ZipArchive_mount a dest fs = (Inr (mounted_record a dest), fs)"
    if "path_exists fs (dest @ [''VERSION''])"
    using that by (simp add: ZipArchive_mount_def)
  show "NoOpArchive_mount a dest fs = (Inr (mounted_record a dest), fs)"
    by (simp add: NoOpArchive_mount_def)
  assume m: "mount a dest fs = (Inr r, fs')"
  from get_archive_cases [OF assms]
  have "r = mounted_record a dest \<and> mount a dest fs' = (Inr r, fs')"
  proof
    assume z: "archive_type a = ZipArchive \<and> ZipArchive_init fs p = Inr a"
    then have zm: "ZipArchive_mount a dest fs = (Inr r, fs')"
      using m by (simp add: mount_def)
    note l = ZipArchive_mount_leaves_VERSION [OF conjunct2 [OF z] zm]
    then show ?thesis
      using z by (simp add: mount_def ZipArchive_mount_def)
  next
    assume "archive_type a = NoOpArchive \<and> NoOpArchive_init fs p = Inr a"
    then show ?thesis
      using m by (auto simp: mount_def NoOpArchive_mount_def)
  qed
  then show "r = mounted_record a dest" "mount a dest fs' = (Inr r, fs')"
    by simp_all
qed

theorem mount_idempotent_witness:
  "get_archive example_fs [''tmp'', ''a.qza''] = Inr example_archive
   \<and> \<not> path_exists example_fs [''out'', example_uuid, ''VERSION'']
   \<and> fst (mount example_archive [''out'', example_uuid] example_fs)
       = Inr (mounted_record example_archive [''out'', example_uuid])
   \<and> path_exists (snd (mount example_archive [''out'', example_uuid] example_fs))
        [''out'', example_uuid, ''VERSION'']
   \<and> mount example_archive [''out'', example_uuid]
        (snd (mount example_archive [''out'', example_uuid] example_fs))
       = (Inr (mounted_record example_archive [''out'', example_uuid]),
          snd (mount example_archive [''out'', example_uuid] example_fs))
   \<and> ZipArchive_mount example_archive [''out'', example_uuid]
        (snd (mount example_archive [''out'', example_uuid] example_fs))
       = (Inr (mounted_record example_archive [''out'', example_uuid]),
          snd (mount example_archive [''out'', example_uuid] example_fs))"
proof -
  let ?d = "[''out'', example_uuid]"
  let ?m = "mount example_archive ?d example_fs"
  have g: "get_archive example_fs [''tmp'', ''a.qza''] = Inr example_archive"
    by code_simp
  have n: "\<not> path_exists example_fs [''out'', example_uuid, ''VERSION'']"
    by code_simp
  have f: "fst ?m = Inr (mounted_record example_archive ?d)"
    by code_simp
  have v: "path_exists (snd ?m) (?d @ [''VERSION''])"
    by code_simp
  have p: "?m = (Inr (mounted_record example_archive ?d), snd ?m)"
    using f by (simp add: prod_eq_iff)
  have "mount example_archive ?d (snd ?m) = (Inr (mounted_record example_archive ?d), snd ?m)"
    using mount_idempotent [OF g, THEN conjunct2, THEN conjunct2, THEN mp, OF p] by simp
  moreover have g2: "get_archive (snd ?m) [''tmp'', ''a.qza''] = Inr example_archive"
    by code_simp
  moreover have "ZipArchive_mount example_archive ?d (snd ?m)
                   = (Inr (mounted_record example_archive ?d), snd ?m)"
    using mount_idempotent [OF g2, THEN conjunct1, THEN mp, OF v] .
  ultimately show ?thesis
    using g n f v by simp
qed


lemma makedirs_existing:
  assumes "path_exists fs name" "path_exists fs (parent name)"
  shows "makedirs name fs = (Inl FileExistsError, fs)"
  using assms by (subst makedirs.simps) (simp add: os_mkdir_def)

lemma makedirs_made:
  "makedirs name fs = (Inr x, fs') \<Longrightarrow> path_exists fs' name"
proof -
  assume m: "makedirs name fs = (Inr x, fs')"
  have k: "os_mkdir name fs1 = (Inr y, fs') \<Longrightarrow> path_exists fs' name" for fs1 y
    by (auto simp: os_mkdir_def path_exists_iff split: if_splits)
  obtain fs1 where "os_mkdir name fs1 = (Inr x, fs')"
    using m by (subst (asm) makedirs.simps) (auto split: if_splits sum.splits prod.splits)
  then show ?thesis by (rule k)
qed

lemma ZipArchive_extract_keeps:
  assumes "ZipArchive_extract self filepath fs = (r, fs')" "path_exists fs q"
  shows "path_exists fs' q"
proof (cases "basename filepath \<noteq> uuid self")
  case True
  then show ?thesis using assms by (simp add: ZipArchive_extract_def)
next
  case False
  show ?thesis
  proof (cases "zip_open fs (path self)")
    case (Inl e)
    then show ?thesis using assms False by (simp add: ZipArchive_extract_def)
  next
    case (Inr z)
    obtain r1 fs1 where m: "extract_members z (uuid self) (parent filepath) (namelist z) fs = (r1, fs1)"
      by (cases "extract_members z (uuid self) (parent filepath) (namelist z) fs")
    then have "fs' = fs1"
      using assms False Inr by (auto simp: ZipArchive_extract_def split: sum.splits)
    then show ?thesis using extract_members_keeps [OF m assms(2)] by simp
  qed
qed

text \<open>
  C10. When the destination directory already holds an entry named after the artifact's
  UUID, \<^verbatim>\<open>Archiver.extract\<close> raises \<^verbatim>\<open>FileExistsError\<close> from the creation of
  \<^verbatim>\<open>destination/<uuid>\<close> and the file system is unchanged: no member is copied. An
  extraction that succeeds leaves that entry in place, so that extracting again raises.
\<close>

theorem Archiver_extract_existing_destination:
  assumes "get_archive fs filepath = Inr a" and "uuid a \<noteq> []"
  shows "(isdir fs dest \<and> path_exists fs (dest @ [uuid a])
            \<longrightarrow> Archiver_extract filepath dest fs = (Inl FileExistsError, fs))
       \<and> (Archiver_extract filepath dest fs = (Inr x, fs') \<longrightarrow> path_exists fs' (dest @ [uuid a]))"
proof (intro conjI impI)
  have j: "os_path_join dest (uuid a) = dest @ [uuid a]"
    using assms(2) by (simp add: os_path_join_def)
  show "Archiver_extract filepath dest fs = (Inl FileExistsError, fs)"
    if "isdir fs dest \<and> path_exists fs (dest @ [uuid a])"
  proof -
    have "path_exists fs (parent (dest @ [uuid a]))"
      using that by (simp add: parent_def isdir_def path_exists_def)
    then have "makedirs (dest @ [uuid a]) fs = (Inl FileExistsError, fs)"
      using that makedirs_existing by blast
    then show ?thesis
      using assms(1) by (simp add: Archiver_extract_def j)
  qed
  show "path_exists fs' (dest @ [uuid a])" if e: "Archiver_extract filepath dest fs = (Inr x, fs')"
  proof -
    obtain r1 fs1 where m: "makedirs (dest @ [uuid a]) fs = (r1, fs1)"
      by (cases "makedirs (dest @ [uuid a]) fs")
    then obtain y where y: "r1 = Inr y" and ae: "archive_extract a (dest @ [uuid a]) fs1 = (Inr x, fs')"
      using e assms(1) by (cases r1) (auto simp: Archiver_extract_def j)
    have e1: "path_exists fs1 (dest @ [uuid a])"
      using m y makedirs_made by blast
    have "ZipArchive_extract a (dest @ [uuid a]) fs1 = (Inr x, fs')"
      using ae by (cases "archive_type a") (auto simp: archive_extract_def)
    then show ?thesis using e1 by (rule ZipArchive_extract_keeps)
  qed
qed

theorem Archiver_extract_existing_destination_witness:
  "get_archive example_fs [''tmp'', ''a.qza''] = Inr example_archive
   \<and> fst (Archiver_extract [''tmp'', ''a.qza''] [''out''] example_fs) = Inr [''out'', example_uuid]
   \<and> isdir (snd (Archiver_extract [''tmp'', ''a.qza''] [''out''] example_fs)) [''out'']
   \<and> path_exists (snd (Archiver_extract [''tmp'', ''a.qza''] [''out''] example_fs))
        [''out'', example_uuid]
   \<and> get_archive (snd (Archiver_extract [''tmp'', ''a.qza''] [''out''] example_fs))
        [''tmp'', ''a.qza''] = Inr example_archive
   \<and> Archiver_extract [''tmp'', ''a.qza''] [''out'']
        (snd (Archiver_extract [''tmp'', ''a.qza''] [''out''] example_fs))
       = (Inl FileExistsError, snd (Archiver_extract [''tmp'', ''a.qza''] [''out''] example_fs))"
proof -
  let ?e = "Archiver_extract [''tmp'', ''a.qza''] [''out''] example_fs"
  have g: "get_archive example_fs [''tmp'', ''a.qza''] = Inr example_archive"
    by code_simp
  have u: "uuid example_archive \<noteq> []" "uuid example_archive = example_uuid"
    by (simp_all add: example_archive_def example_uuid_def)
  have f: "fst ?e = Inr [''out'', example_uuid]"
    by code_simp
  have d: "isdir (snd ?e) [''out'']"
    by code_simp
  have g2: "get_archive (snd ?e) [''tmp'', ''a.qza''] = Inr example_archive"
    by code_simp
  have p: "?e = (Inr [''out'', example_uuid], snd ?e)"
    using f by (simp add: prod_eq_iff)
  have x: "path_exists (snd ?e) ([''out''] @ [uuid example_archive])"
    using Archiver_extract_existing_destination [OF g u(1), THEN conjunct2, THEN mp, OF p] .
  have "Archiver_extract [''tmp'', ''a.qza''] [''out''] (snd ?e) = (Inl FileExistsError, snd ?e)"
    using Archiver_extract_existing_destination [OF g2 u(1), THEN conjunct1, THEN mp, OF conjI, OF d x] .
  then show ?thesis
    using g f d x g2 u(2) by simp
qed

section \<open>Checksum validation is the three-way difference\<close>

lemma foldl_update_map_of:
  "map_of (foldl (\<lambda>d (k, v). AList.update k v d) d0 ps) = map_of d0 ++ map_of (rev ps)"
  by (induction ps arbitrary: d0) (auto simp: update_conv' map_add_def fun_eq_iff split: option.splits)

lemma foldl_update_distinct:
  "distinct (map fst d0) \<Longrightarrow> distinct (map fst (foldl (\<lambda>d (k, v). AList.update k v d) d0 ps))"
  by (induction ps arbitrary: d0) (auto simp: distinct_update)

lemma map_of_dict_from: "map_of (dict_from ps) = map_of (rev ps)"
  by (simp add: dict_from_def foldl_update_map_of)

lemma distinct_dict_from: "distinct (map fst (dict_from ps))"
  by (simp add: dict_from_def foldl_update_distinct)

lemma keys_dict_from: "set (map fst (dict_from ps)) = dom (map_of (rev ps))"
  using dom_map_of_conv_image_fst [of "dict_from ps"] by (simp add: map_of_dict_from)

lemma map_of_subscript_items:
  "map_of (subscript_items d ks) x = (if x \<in> set ks then map_of d x else None)"
  by (induction ks) (auto simp: subscript_items_def split: option.splits)

lemma map_fst_subscript_items:
  "set ks \<subseteq> fst ` set d \<Longrightarrow> map fst (subscript_items d ks) = ks"
  by (induction ks) (auto simp: subscript_items_def map_of_eq_None_iff split: option.splits)

lemma map_of_changed_items:
  "map_of (changed_items exp obs ks) x =
     (if x \<in> set ks then spec_changed (map_of obs) (map_of exp) x else None)"
  by (induction ks) (auto simp: changed_items_def spec_changed_def split: option.splits)

lemma distinct_changed_items:
  "distinct ks \<Longrightarrow> distinct (map fst (changed_items exp obs ks))"
  by (induction ks) (auto simp: changed_items_def split: option.splits)

lemma changed_items_same: "map_of obs = map_of exp \<Longrightarrow> changed_items exp obs ks = []"
  by (induction ks) (auto simp: changed_items_def split: option.splits)

lemma map_of_drop_key:
  "map_of [x \<leftarrow> xs. fst x \<noteq> c] k = (if k \<noteq> c then map_of xs k else None)"
  by (induction xs) auto

lemma map_of_observed:
  "map_of (rev [x \<leftarrow> md5sums. fst x \<noteq> cf]) = observed_digests md5sums cf"
  by (auto simp: observed_digests_def rev_filter map_of_drop_key fun_eq_iff)

lemma checksum_diff_sel:
  "added (checksum_diff obs exp) =
     subscript_items obs [x \<leftarrow> map fst obs. x \<notin> set (map fst exp)]"
  "removed (checksum_diff obs exp) =
     subscript_items exp [x \<leftarrow> map fst exp. x \<notin> set (map fst obs)]"
  "changed (checksum_diff obs exp) =
     changed_items exp obs [x \<leftarrow> map fst exp. x \<in> set (map fst obs)]"
  by (simp_all add: checksum_diff_def Let_def)

lemma checksum_diff_maps:
  "map_of (added (checksum_diff obs exp)) = spec_added (map_of obs) (map_of exp)"
  "map_of (removed (checksum_diff obs exp)) = spec_removed (map_of obs) (map_of exp)"
  "map_of (changed (checksum_diff obs exp)) = spec_changed (map_of obs) (map_of exp)"
proof -
  have ko: "fst ` set obs = dom (map_of obs)" and ke: "fst ` set exp = dom (map_of exp)"
    by (simp_all add: dom_map_of_conv_image_fst)
  show "map_of (added (checksum_diff obs exp)) = spec_added (map_of obs) (map_of exp)"
    by (auto simp: checksum_diff_sel fun_eq_iff map_of_subscript_items spec_added_def ko ke)
  show "map_of (removed (checksum_diff obs exp)) = spec_removed (map_of obs) (map_of exp)"
    by (auto simp: checksum_diff_sel fun_eq_iff map_of_subscript_items spec_removed_def ko ke)
  show "map_of (changed (checksum_diff obs exp)) = spec_changed (map_of obs) (map_of exp)"
    by (auto simp: checksum_diff_sel fun_eq_iff map_of_changed_items ko ke spec_changed_def
             split: option.splits)
qed

lemma checksum_diff_distinct:
  assumes "distinct (map fst obs)" "distinct (map fst exp)"
  shows "distinct (map fst (added (checksum_diff obs exp)))"
    and "distinct (map fst (removed (checksum_diff obs exp)))"
    and "distinct (map fst (changed (checksum_diff obs exp)))"
proof -
  show "distinct (map fst (added (checksum_diff obs exp)))"
    using assms unfolding checksum_diff_sel by (subst map_fst_subscript_items) auto
  show "distinct (map fst (removed (checksum_diff obs exp)))"
    using assms unfolding checksum_diff_sel by (subst map_fst_subscript_items) auto
  show "distinct (map fst (changed (checksum_diff obs exp)))"
    using assms unfolding checksum_diff_sel by (intro distinct_changed_items) simp
qed

lemma checksum_diff_identical:
  assumes m: "map_of obs = map_of exp"
  shows "checksum_diff obs exp = \<lparr>added = [], removed = [], changed = []\<rparr>"
proof -
  have "dom (map_of obs) = dom (map_of exp)"
    using m by simp
  then have k: "set (map fst obs) = set (map fst exp)"
    by (simp only: dom_map_of_conv_image_fst set_map)
  have f1: "[x \<leftarrow> map fst obs. x \<notin> set (map fst exp)] = []"
    unfolding k [symmetric] by (simp add: filter_empty_conv)
  have f2: "[x \<leftarrow> map fst exp. x \<notin> set (map fst obs)] = []"
    unfolding k by (simp add: filter_empty_conv)
  show ?thesis
    unfolding checksum_diff_def Let_def f1 f2
    by (simp add: changed_items_same [OF m] subscript_items_def)
qed

lemma validate_checksums_v5:
  "validate_checksums (Inr True) cf (Inr md5sums) (Inr entries) =
     Inr (checksum_diff (dict_from [x \<leftarrow> md5sums. fst x \<noteq> cf]) (dict_from entries))"
  by (simp add: validate_checksums_def)

text \<open>
  C7. For a handle over the checksum-recording format, with the digests of the files under
  the root and the entries of the manifest read without an exception,
  \<^verbatim>\<open>validate_checksums\<close> returns three dictionaries that are, as maps: \<open>added\<close> the
  observed paths (all but the manifest itself) absent from the manifest, \<open>removed\<close> the
  manifest's paths not observed, \<open>changed\<close> the (expected, observed) pairs of the paths in
  both with differing digests. When the observed digests are the manifest's, all three are
  empty. A handle over a format without a manifest gets the empty difference, not an error.
\<close>

theorem validate_checksums_three_way_diff:
  "(\<exists>d. validate_checksums (Inr True) manifest_name (Inr md5sums) (Inr entries) = Inr d
      \<and> map_of (added d) = spec_added (observed_digests md5sums manifest_name) (map_of (rev entries))
      \<and> map_of (removed d) = spec_removed (observed_digests md5sums manifest_name) (map_of (rev entries))
      \<and> map_of (changed d) = spec_changed (observed_digests md5sums manifest_name) (map_of (rev entries))
      \<and> distinct (map fst (added d)) \<and> distinct (map fst (removed d))
      \<and> distinct (map fst (changed d))
      \<and> (observed_digests md5sums manifest_name = map_of (rev entries)
           \<longrightarrow> added d = [] \<and> removed d = [] \<and> changed d = []))
   \<and> validate_checksums (Inr False) manifest_name any_digests any_manifest
         = Inr \<lparr>added = [], removed = [], changed = []\<rparr>"
proof -
  let ?obs = "dict_from [x \<leftarrow> md5sums. fst x \<noteq> manifest_name]"
  let ?exp = "dict_from entries"
  have o: "map_of ?obs = observed_digests md5sums manifest_name"
    by (simp add: map_of_dict_from map_of_observed)
  have e: "map_of ?exp = map_of (rev entries)"
    by (simp add: map_of_dict_from)
  have same: "checksum_diff ?obs ?exp = \<lparr>added = [], removed = [], changed = []\<rparr>"
    if "observed_digests md5sums manifest_name = map_of (rev entries)"
    using that by (intro checksum_diff_identical) (simp add: o e)
  have "validate_checksums (Inr False) manifest_name any_digests any_manifest
          = Inr \<lparr>added = [], removed = [], changed = []\<rparr>"
    by (simp add: validate_checksums_def)
  then show ?thesis
    using checksum_diff_maps [of ?obs ?exp]
      checksum_diff_distinct [OF distinct_dict_from distinct_dict_from, of "[x \<leftarrow> md5sums. fst x \<noteq> manifest_name]" entries]
      same
    by (simp add: validate_checksums_v5 o e)
qed

theorem validate_checksums_three_way_diff_witness:
  "observed_digests [(''data/a.txt'', ''d1''), (''checksums.md5'', ''d9'')] ''checksums.md5''
     = map_of (rev [(''data/a.txt'', ''d1'')])
   \<and> validate_checksums (Inr True) ''checksums.md5''
         (Inr [(''data/a.txt'', ''d1''), (''checksums.md5'', ''d9'')]) (Inr [(''data/a.txt'', ''d1'')])
       = Inr \<lparr>added = [], removed = [], changed = []\<rparr>"
proof -
  have h: "observed_digests [(''data/a.txt'', ''d1''), (''checksums.md5'', ''d9'')] ''checksums.md5''
             = map_of (rev [(''data/a.txt'', ''d1'')])"
    by (auto simp: observed_digests_def fun_eq_iff)
  from h validate_checksums_three_way_diff
      [of "''checksums.md5''" "[(''data/a.txt'', ''d1''), (''checksums.md5'', ''d9'')]"
          "[(''data/a.txt'', ''d1'')]"]
  obtain d where d: "validate_checksums (Inr True) ''checksums.md5''
         (Inr [(''data/a.txt'', ''d1''), (''checksums.md5'', ''d9'')]) (Inr [(''data/a.txt'', ''d1'')])
       = Inr d" "added d = []" "removed d = []" "changed d = []"
    by blast
  then have "d = \<lparr>added = [], removed = [], changed = []\<rparr>"
    by (cases d) simp
  with d(1) h show ?thesis
    by simp
qed

section \<open>Unknown versions and peeking\<close>

lemma get_format_class_unregistered:
  "map_of FORMAT_REGISTRY v = None \<Longrightarrow> get_format_class imp v = Inr None"
  by (simp add: get_format_class_def)

lemma peek_unregistered:
  assumes "get_archive (files w) filepath = Inr a" "map_of FORMAT_REGISTRY (version a) = None"
  shows "peek C filepath w
           = (Inl (ValueError_futuristic filepath (framework_version a) (version a)), w)"
  using assms
  by (simp add: peek_def get_format_class_unregistered futuristic_archive_error_def)

lemma load_try_unregistered:
  assumes "map_of FORMAT_REGISTRY (version a) = None"
  shows "load_try C filepath a p w
           = ((Inl (ValueError_futuristic filepath (framework_version a) (version a)), None), w)"
  using assms
  by (simp add: load_try_def get_format_class_unregistered futuristic_archive_error_def)

lemma load_unregistered:
  assumes "get_archive (files w) filepath = Inr a" "map_of FORMAT_REGISTRY (version a) = None"
    and "make_temp_path C (uuid a) w = (Inr p, w1)"
    and "destroy_temp_path C (uuid a) w1 = (Inr x, w2)"
  shows "load C filepath w
           = (Inl (ValueError_futuristic filepath (framework_version a) (version a)), w2)"
  using assms
  by (simp add: load_def load_try_unregistered except_handler_def)

lemma load_raw_unregistered:
  assumes "get_archive (files w) filepath = Inr a" "map_of FORMAT_REGISTRY (version a) = None"
    and "make_alias C (uuid a) w = (Inr alias, w1)"
  shows "load_raw C filepath w
           = (Inl (ValueError_futuristic filepath (framework_version a) (version a)), w1)"
  using assms
  by (simp add: load_raw_def get_format_class_unregistered futuristic_archive_error_def)

text \<open>
  C5. For a version tag absent from the registry, \<^verbatim>\<open>get_format_class\<close> returns
  \<^verbatim>\<open>None\<close> and raises nothing, whatever the import machinery does. For an archive that
  declares such a version, \<^verbatim>\<open>peek\<close>, \<^verbatim>\<open>load\<close> (once its temporary path is allocated and
  destroyed again) and \<^verbatim>\<open>load_raw\<close> (once its alias is made) raise the error of
  \<^verbatim>\<open>_futuristic_archive_error\<close>, which carries the path, the archive's declared framework
  version and its version.
\<close>

theorem unregistered_version_is_futuristic:
  assumes "map_of FORMAT_REGISTRY v = None"
  shows "get_format_class imp v = Inr None
       \<and> (get_archive (files w) filepath = Inr a \<and> version a = v \<longrightarrow>
            peek C filepath w
              = (Inl (ValueError_futuristic filepath (framework_version a) v), w)
            \<and> (make_temp_path C (uuid a) w = (Inr p, w1)
                 \<and> destroy_temp_path C (uuid a) w1 = (Inr x, w2) \<longrightarrow>
                 load C filepath w
                   = (Inl (ValueError_futuristic filepath (framework_version a) v), w2))
            \<and> (make_alias C (uuid a) w = (Inr alias, w3) \<longrightarrow>
                 load_raw C filepath w
                   = (Inl (ValueError_futuristic filepath (framework_version a) v), w3)))"
proof (intro conjI impI)
  show "get_format_class imp v = Inr None"
    using assms by (rule get_format_class_unregistered)
next
  assume h: "get_archive (files w) filepath = Inr a \<and> version a = v"
  then have g: "get_archive (files w) filepath = Inr a"
    and n: "map_of FORMAT_REGISTRY (version a) = None"
    using assms by simp_all
  show "peek C filepath w = (Inl (ValueError_futuristic filepath (framework_version a) v), w)"
    using peek_unregistered [OF g n] h by simp
  show "load C filepath w = (Inl (ValueError_futuristic filepath (framework_version a) v), w2)"
    if "make_temp_path C (uuid a) w = (Inr p, w1) \<and> destroy_temp_path C (uuid a) w1 = (Inr x, w2)"
    using load_unregistered [OF g n conjunct1 [OF that] conjunct2 [OF that]] h by simp
  show "load_raw C filepath w = (Inl (ValueError_futuristic filepath (framework_version a) v), w3)"
    if "make_alias C (uuid a) w = (Inr alias, w3)"
    using load_raw_unregistered [OF g n that] h by simp
qed



theorem unregistered_version_is_futuristic_witness:
  "map_of FORMAT_REGISTRY ''99'' = None
   \<and> get_format_class (importer (example_collaborators False)) ''99'' = Inr None
   \<and> peek (example_collaborators False) [''tmp'', ''future.qza''] example_world
       = (Inl (ValueError_futuristic [''tmp'', ''future.qza''] ''2040.1.0'' ''99''), example_world)
   \<and> fst (load (example_collaborators False) [''tmp'', ''future.qza''] example_world)
       = Inl (ValueError_futuristic [''tmp'', ''future.qza''] ''2040.1.0'' ''99'')
   \<and> fst (load_raw (example_collaborators False) [''tmp'', ''future.qza''] example_world)
       = Inl (ValueError_futuristic [''tmp'', ''future.qza''] ''2040.1.0'' ''99'')"
proof -
  let ?C = "example_collaborators False"
  let ?f = "[''tmp'', ''future.qza'']"
  let ?t = "make_temp_path ?C (uuid future_archive) example_world"
  let ?d = "destroy_temp_path ?C (uuid future_archive) (snd ?t)"
  let ?l = "make_alias ?C (uuid future_archive) example_world"
  have n: "map_of FORMAT_REGISTRY ''99'' = None"
    by (simp add: FORMAT_REGISTRY_def)
  have g: "get_archive (files example_world) ?f = Inr future_archive \<and> version future_archive = ''99''"
    by code_simp
  have fv: "framework_version future_archive = ''2040.1.0''"
    by (simp add: future_archive_def)
  have t: "?t = (Inr [''cache'', example_uuid], snd ?t)"
    by (simp add: make_temp_path_def example_collaborators_def future_archive_def)
  have d: "?d = (Inr (), snd ?d)"
    by (simp add: destroy_temp_path_def example_collaborators_def)
  have l: "?l = (Inr (''alias of '' @ example_uuid), snd ?l)"
    by (simp add: example_collaborators_def future_archive_def)
  note th = unregistered_version_is_futuristic [OF n, of _ example_world ?f future_archive ?C]
  have 1: "get_format_class (importer ?C) ''99'' = Inr None"
    using th [THEN conjunct1] .
  note r = th [THEN conjunct2, THEN mp, OF g]
  have 2: "peek ?C ?f example_world
             = (Inl (ValueError_futuristic ?f ''2040.1.0'' ''99''), example_world)"
    using r [THEN conjunct1] fv by simp
  have "load ?C ?f example_world
             = (Inl (ValueError_futuristic ?f ''2040.1.0'' ''99''), snd ?d)"
    using r [THEN conjunct2, THEN conjunct1, THEN mp, OF conjI, OF t d] fv by simp
  then have 3: "fst (load ?C ?f example_world) = Inl (ValueError_futuristic ?f ''2040.1.0'' ''99'')"
    by simp
  have "load_raw ?C ?f example_world
             = (Inl (ValueError_futuristic ?f ''2040.1.0'' ''99''), snd ?l)"
    using r [THEN conjunct2, THEN conjunct2, THEN mp, OF l] fv by simp
  then have 4: "fst (load_raw ?C ?f example_world) = Inl (ValueError_futuristic ?f ''2040.1.0'' ''99'')"
    by simp
  show ?thesis
    using n 1 2 3 4 by simp
qed

text \<open>
  C6. \<^verbatim>\<open>Archiver.peek\<close> calls no cache operation: for every path and every behaviour of the
  collaborators it leaves the world as it was, so that any count taken of the cache state is
  the same before and after, whether it returns the metadata or raises; for an archive of
  an unknown version it raises the future-version error.
\<close>

theorem peek_allocates_nothing:
  "snd (peek C filepath w) = w
   \<and> count (cache (snd (peek C filepath w))) = count (cache w)
   \<and> (get_archive (files w) filepath = Inr a \<and> map_of FORMAT_REGISTRY (version a) = None \<longrightarrow>
        fst (peek C filepath w)
          = Inl (ValueError_futuristic filepath (framework_version a) (version a)))"
proof -
  have s: "snd (peek C filepath w) = w"
    by (simp add: peek_def split: sum.splits option.splits)
  show ?thesis
    using peek_unregistered [of w filepath a C] by (simp add: s)
qed

theorem peek_allocates_nothing_witness:
  "get_archive (files example_world) [''tmp'', ''future.qza''] = Inr future_archive
   \<and> map_of FORMAT_REGISTRY (version future_archive) = None
   \<and> fst (peek (example_collaborators False) [''tmp'', ''future.qza''] example_world)
       = Inl (ValueError_futuristic [''tmp'', ''future.qza''] ''2040.1.0'' ''99'')
   \<and> length (cache (snd (peek (example_collaborators False) [''tmp'', ''future.qza''] example_world)))
       = length (cache example_world)
   \<and> fst (peek (example_collaborators False) [''tmp'', ''a.qza''] example_world) = Inr example_uuid
   \<and> length (cache (snd (peek (example_collaborators False) [''tmp'', ''a.qza''] example_world)))
       = length (cache example_world)"
proof -
  let ?C = "example_collaborators False"
  have g: "get_archive (files example_world) [''tmp'', ''future.qza''] = Inr future_archive"
    by code_simp
  have n: "map_of FORMAT_REGISTRY (version future_archive) = None"
    by (simp add: FORMAT_REGISTRY_def future_archive_def)
  have fv: "framework_version future_archive = ''2040.1.0''" "version future_archive = ''99''"
    by (simp_all add: future_archive_def)
  have ok: "fst (peek ?C [''tmp'', ''a.qza''] example_world) = Inr example_uuid"
    by code_simp
  note th = peek_allocates_nothing [of ?C _ example_world length]
  have "fst (peek ?C [''tmp'', ''future.qza''] example_world)
          = Inl (ValueError_futuristic [''tmp'', ''future.qza''] ''2040.1.0'' ''99'')"
    using th [of "[''tmp'', ''future.qza'']" future_archive, THEN conjunct2, THEN conjunct2, THEN mp,
        OF conjI, OF g n] fv by simp
  then show ?thesis
    using g n ok th [of "[''tmp'', ''future.qza'']", THEN conjunct2, THEN conjunct1]
      th [of "[''tmp'', ''a.qza'']", THEN conjunct2, THEN conjunct1]
    by simp
qed

section \<open>Rollback of load and from_data\<close>

lemma contract_allocate:
  "cache_contract C allocs \<Longrightarrow> allocate C u w = (r, w') \<Longrightarrow>
     allocs (cache w') \<subseteq> insert u (allocs (cache w))"
  unfolding cache_contract_def by blast

lemma contract_rename_ok:
  "cache_contract C allocs \<Longrightarrow> rename_to_data C u p w = (Inr (alias, d), w') \<Longrightarrow>
     allocs (cache w') \<subseteq> insert alias (allocs (cache w))"
  unfolding cache_contract_def by blast

lemma contract_rename_fails:
  "cache_contract C allocs \<Longrightarrow> rename_to_data C u p w = (Inl e, w') \<Longrightarrow>
     allocs (cache w') \<subseteq> allocs (cache w)"
  unfolding cache_contract_def by blast

lemma contract_rename:
  assumes "cache_contract C allocs" "rename_to_data C u p w = (r, w')"
  shows "allocs (cache w') \<subseteq> allocs (cache w) \<union> (case r of Inl e \<Rightarrow> {} | Inr (alias, d) \<Rightarrow> {alias})"
proof (cases r)
  case (Inl e)
  then show ?thesis using contract_rename_fails [OF assms(1)] assms(2) by auto
next
  case (Inr ad)
  obtain al d where "ad = (al, d)" by (cases ad)
  then show ?thesis using contract_rename_ok [OF assms(1), of u p w al d w'] assms(2) Inr by auto
qed

lemma contract_remove:
  "cache_contract C allocs \<Longrightarrow> pool_remove C n w = (r, w') \<Longrightarrow>
     r = Inr () \<and> allocs (cache w') = allocs (cache w) - {n}"
  unfolding cache_contract_def by blast

lemma load_try_allocs:
  assumes c: "cache_contract C allocs"
    and l: "load_try C filepath a p w = ((r, bound), w')"
  shows "allocs (cache w') \<subseteq> allocs (cache w) \<union> set_option bound"
proof (cases "get_format_class (importer C) (version a)")
  case (Inl e)
  then show ?thesis using l by (auto simp: load_try_def)
next
  case (Inr F)
  show ?thesis
  proof (cases F)
    case None
    then show ?thesis using l Inr by (auto simp: load_try_def)
  next
    case (Some Format)
    obtain rm fs1 where m: "mount a p (files w) = (rm, fs1)"
      by (cases "mount a p (files w)")
    show ?thesis
    proof (cases rm)
      case (Inl e)
      then show ?thesis using l Inr Some m by (auto simp: load_try_def)
    next
      case (Inr mr)
      obtain rr w2 where rn: "rename_to_data C (uuid a) p (w\<lparr>files := fs1\<rparr>) = (rr, w2)"
        by (cases "rename_to_data C (uuid a) p (w\<lparr>files := fs1\<rparr>)")
      note k = contract_rename [OF c rn]
      show ?thesis
      proof (cases rr)
        case (Inl e)
        then show ?thesis
          using l \<open>get_format_class (importer C) (version a) = Inr F\<close> Some m Inr rn k
          by (auto simp: load_try_def)
      next
        case (Inr ad)
        obtain al d where ad: "ad = (al, d)" by (cases ad)
        have "w' = w2 \<and> bound = Some al"
          using l \<open>get_format_class (importer C) (version a) = Inr F\<close> Some m \<open>rm = Inr mr\<close> rn Inr ad
          by (auto simp: load_try_def split: sum.splits)
        then show ?thesis using k Inr ad by auto
      qed
    qed
  qed
qed

lemma from_data_try_allocs:
  assumes c: "cache_contract C allocs"
    and l: "from_data_try C u p args w = ((r, bound), w')"
  shows "allocs (cache w') \<subseteq> allocs (cache w) \<union> set_option bound"
proof -
  obtain rs fs1 where s: "Archive_setup u p CURRENT_FORMAT_VERSION (qiime2_version C) (files w) = (rs, fs1)"
    by (cases "Archive_setup u p CURRENT_FORMAT_VERSION (qiime2_version C) (files w)")
  show ?thesis
  proof (cases rs)
    case (Inl e)
    then show ?thesis using l s by (auto simp: from_data_try_def)
  next
    case (Inr rec1)
    note rs = Inr
    show ?thesis
    proof (cases "get_format_class (importer C) CURRENT_FORMAT_VERSION")
      case (Inl e)
      then show ?thesis using l s rs by (auto simp: from_data_try_def)
    next
      case (Inr F)
      note gf = Inr
      show ?thesis
      proof (cases F)
        case None
        then show ?thesis using l s rs gf by (auto simp: from_data_try_def)
      next
        case (Some Format)
        obtain rw fs2 where wf: "write_format Format rec1 args fs1 = (rw, fs2)"
          by (cases "write_format Format rec1 args fs1")
        show ?thesis
        proof (cases rw)
          case (Inl e)
          then show ?thesis using l s rs gf Some wf by (auto simp: from_data_try_def)
        next
          case (Inr x)
          note rw = Inr
          obtain rr w3 where rn: "rename_to_data C u p (w\<lparr>files := fs2\<rparr>) = (rr, w3)"
            by (cases "rename_to_data C u p (w\<lparr>files := fs2\<rparr>)")
          note k = contract_rename [OF c rn]
          show ?thesis
          proof (cases rr)
            case (Inl e)
            then show ?thesis
              using l s rs gf Some wf rw rn k by (auto simp: from_data_try_def)
          next
            case (Inr ad)
            obtain al d where ad: "ad = (al, d)" by (cases ad)
            have "w' = w3 \<and> bound = Some al"
              using l s rs gf Some wf rw rn Inr ad
              by (auto simp: from_data_try_def split: sum.splits)
            then show ?thesis using k Inr ad by auto
          qed
        qed
      qed
    qed
  qed
qed

lemma except_handler_rollback:
  assumes c: "cache_contract C allocs" and x: "X = except_handler C u bound e w"
  shows "\<exists>w'. X = (Inl e, w')
            \<and> allocs (cache w') = allocs (cache w) - {u} - set_option bound"
proof -
  obtain r1 w1 where d1: "destroy_temp_path C u w = (r1, w1)"
    by (cases "destroy_temp_path C u w")
  then have r1: "r1 = Inr ()" and a1: "allocs (cache w1) = allocs (cache w) - {u}"
    using contract_remove [OF c, of u w r1 w1] by (simp_all add: destroy_temp_path_def)
  show ?thesis
  proof (cases bound)
    case None
    then show ?thesis using d1 r1 a1 by (simp add: x except_handler_def)
  next
    case (Some al)
    obtain r2 w2 where d2: "destroy_temp_path C al w1 = (r2, w2)"
      by (cases "destroy_temp_path C al w1")
    then have "r2 = Inr ()" and "allocs (cache w2) = allocs (cache w1) - {al}"
      using contract_remove [OF c, of al w1 r2 w2] by (simp_all add: destroy_temp_path_def)
    then show ?thesis using Some d1 r1 a1 d2 by (simp add: x except_handler_def)
  qed
qed

lemma rollback_allocs:
  assumes "A1 \<subseteq> insert u A0" "A2 \<subseteq> A1 \<union> set_option bound" "A3 = A2 - {u} - set_option bound"
  shows "A3 \<subseteq> A0 - {u} \<and> (\<forall>alias. bound = Some alias \<longrightarrow> alias \<notin> A3)"
  using assms by auto

text \<open>
  C1. The handler of \<^verbatim>\<open>load\<close> and \<^verbatim>\<open>from_data\<close> is not guarded, so the rollback is as
  good as the cache it calls. Let the cache keep its contract (\<open>cache_contract\<close>: removing
  a name releases it and does not raise, allocating adds at most the UUID's name, renaming
  adds at most the alias it returns and nothing when it raises). When \<^verbatim>\<open>load\<close> has
  identified the archive and allocated its temporary path, and its \<^verbatim>\<open>try\<close> block then
  raises \<open>e\<close> at any step (format resolution, mount, rename, construction), \<^verbatim>\<open>load\<close>
  raises that same \<open>e\<close>, and in the world it leaves no allocation is left that was not
  there before the call, none under the UUID, and not the alias if the rename had returned
  one. The same holds for \<^verbatim>\<open>from_data\<close> and the UUID it generated (setup, format write,
  rename, construction).
\<close>

theorem rollback_releases_allocations:
  assumes c: "cache_contract C allocs"
  shows "(get_archive (files w) filepath = Inr a \<and> make_temp_path C (uuid a) w = (Inr p, w1)
            \<and> load_try C filepath a p w1 = ((Inl e, bound), w2)
          \<longrightarrow> (\<exists>w'. load C filepath w = (Inl e, w')
                  \<and> allocs (cache w') \<subseteq> allocs (cache w) - {uuid a}
                  \<and> (\<forall>alias. bound = Some alias \<longrightarrow> alias \<notin> allocs (cache w'))))
       \<and> (make_temp_path C u v = (Inr q, v1)
            \<and> from_data_try C u q args v1 = ((Inl e', bound'), v2)
          \<longrightarrow> (\<exists>v'. from_data C u args v = (Inl e', v')
                  \<and> allocs (cache v') \<subseteq> allocs (cache v) - {u}
                  \<and> (\<forall>alias. bound' = Some alias \<longrightarrow> alias \<notin> allocs (cache v'))))"
proof (intro conjI impI)
  assume h: "get_archive (files w) filepath = Inr a \<and> make_temp_path C (uuid a) w = (Inr p, w1)
            \<and> load_try C filepath a p w1 = ((Inl e, bound), w2)"
  then have l: "load C filepath w = except_handler C (uuid a) bound e w2"
    by (simp add: load_def)
  have a1: "allocs (cache w1) \<subseteq> insert (uuid a) (allocs (cache w))"
    using h contract_allocate [OF c] by (simp add: make_temp_path_def)
  have a2: "allocs (cache w2) \<subseteq> allocs (cache w1) \<union> set_option bound"
    using h load_try_allocs [OF c] by blast
  obtain w' where w': "load C filepath w = (Inl e, w')"
    "allocs (cache w') = allocs (cache w2) - {uuid a} - set_option bound"
    using except_handler_rollback [OF c l] by (elim exE conjE)
  show "\<exists>w'. load C filepath w = (Inl e, w')
          \<and> allocs (cache w') \<subseteq> allocs (cache w) - {uuid a}
          \<and> (\<forall>alias. bound = Some alias \<longrightarrow> alias \<notin> allocs (cache w'))"
  proof (intro exI conjI)
    show "load C filepath w = (Inl e, w')" by (rule w'(1))
    show "allocs (cache w') \<subseteq> allocs (cache w) - {uuid a}"
      using rollback_allocs [OF a1 a2 w'(2)] by (rule conjunct1)
    show "\<forall>alias. bound = Some alias \<longrightarrow> alias \<notin> allocs (cache w')"
      using rollback_allocs [OF a1 a2 w'(2)] by (rule conjunct2)
  qed
next
  assume h: "make_temp_path C u v = (Inr q, v1)
            \<and> from_data_try C u q args v1 = ((Inl e', bound'), v2)"
  then have l: "from_data C u args v = except_handler C u bound' e' v2"
    by (simp add: from_data_def)
  have a1: "allocs (cache v1) \<subseteq> insert u (allocs (cache v))"
    using h contract_allocate [OF c] by (simp add: make_temp_path_def)
  have a2: "allocs (cache v2) \<subseteq> allocs (cache v1) \<union> set_option bound'"
    using h from_data_try_allocs [OF c] by blast
  obtain v' where v': "from_data C u args v = (Inl e', v')"
    "allocs (cache v') = allocs (cache v2) - {u} - set_option bound'"
    using except_handler_rollback [OF c l] by (elim exE conjE)
  show "\<exists>v'. from_data C u args v = (Inl e', v')
          \<and> allocs (cache v') \<subseteq> allocs (cache v) - {u}
          \<and> (\<forall>alias. bound' = Some alias \<longrightarrow> alias \<notin> allocs (cache v'))"
  proof (intro exI conjI)
    show "from_data C u args v = (Inl e', v')" by (rule v'(1))
    show "allocs (cache v') \<subseteq> allocs (cache v) - {u}"
      using rollback_allocs [OF a1 a2 v'(2)] by (rule conjunct1)
    show "\<forall>alias. bound' = Some alias \<longrightarrow> alias \<notin> allocs (cache v')"
      using rollback_allocs [OF a1 a2 v'(2)] by (rule conjunct2)
  qed
qed


lemma example_cache_contract: "cache_contract (example_collaborators broken) set"
  by (auto simp: cache_contract_def example_collaborators_def)

theorem rollback_releases_allocations_witness:
  "cache_contract (example_collaborators True) set
   \<and> fst (load (example_collaborators True) [''tmp'', ''a.qza''] example_world)
       = Inl (Raised ''constructor'')
   \<and> set (cache (snd (load (example_collaborators True) [''tmp'', ''a.qza''] example_world)))
       \<subseteq> set (cache example_world) - {example_uuid}
   \<and> ''alias of '' @ example_uuid
       \<notin> set (cache (snd (load (example_collaborators True) [''tmp'', ''a.qza''] example_world)))
   \<and> fst (from_data (example_collaborators True) example_uuid () example_world)
       = Inl (Raised ''constructor'')
   \<and> set (cache (snd (from_data (example_collaborators True) example_uuid () example_world)))
       \<subseteq> set (cache example_world) - {example_uuid}
   \<and> ''alias of '' @ example_uuid
       \<notin> set (cache (snd (from_data (example_collaborators True) example_uuid () example_world)))"
proof -
  let ?C = "example_collaborators True"
  let ?f = "[''tmp'', ''a.qza'']"
  let ?p = "[''cache'', example_uuid]"
  let ?al = "''alias of '' @ example_uuid"
  let ?t = "make_temp_path ?C (uuid example_archive) example_world"
  let ?b = "load_try ?C ?f example_archive ?p (snd ?t)"
  let ?t' = "make_temp_path ?C example_uuid example_world"
  let ?b' = "from_data_try ?C example_uuid ?p () (snd ?t')"
  note c = example_cache_contract [of True]
  have g: "get_archive (files example_world) ?f = Inr example_archive"
    by code_simp
  have u: "uuid example_archive = example_uuid"
    by (simp add: example_archive_def)
  have t: "?t = (Inr ?p, snd ?t)"
    by (simp add: make_temp_path_def example_collaborators_def u)
  have "fst ?b = (Inl (Raised ''constructor''), Some ?al)"
    by code_simp
  then have b: "?b = ((Inl (Raised ''constructor''), Some ?al), snd ?b)"
    by (simp add: prod_eq_iff)
  have t': "?t' = (Inr ?p, snd ?t')"
    by (simp add: make_temp_path_def example_collaborators_def)
  have "fst ?b' = (Inl (Raised ''constructor''), Some ?al)"
    by code_simp
  then have b': "?b' = ((Inl (Raised ''constructor''), Some ?al), snd ?b')"
    by (simp add: prod_eq_iff)
  from rollback_releases_allocations [OF c, THEN conjunct1, THEN mp, OF conjI, OF g conjI, OF t b]
  obtain w' where w': "load ?C ?f example_world = (Inl (Raised ''constructor''), w')"
    "set (cache w') \<subseteq> set (cache example_world) - {uuid example_archive}"
    "?al \<notin> set (cache w')"
    by blast
  from rollback_releases_allocations [OF c, THEN conjunct2, THEN mp, OF conjI, OF t' b']
  obtain v' where v': "from_data ?C example_uuid () example_world = (Inl (Raised ''constructor''), v')"
    "set (cache v') \<subseteq> set (cache example_world) - {example_uuid}"
    "?al \<notin> set (cache v')"
    by blast
  show ?thesis
    using c w' v' u by simp
qed


text \<open>
  Without the contract the rollback fails. With a cache whose \<^verbatim>\<open>remove\<close> raises, \<^verbatim>\<open>load\<close>
  of an archive of an unknown version raises the error of \<^verbatim>\<open>remove\<close> in place of the
  error of its \<^verbatim>\<open>try\<close> block, and the temporary allocation stays. With a cache whose
  rename raises after it has made the alias, \<^verbatim>\<open>process_alias\<close> is not bound in the handler
  of \<^verbatim>\<open>load\<close> and of \<^verbatim>\<open>from_data\<close>, and the alias stays.
\<close>

theorem rollback_unguarded_counterexample:
  "fst (load_try raising_remove [''tmp'', ''future.qza''] future_archive [''cache'', example_uuid]
          (snd (make_temp_path raising_remove example_uuid example_world)))
     = (Inl (futuristic_archive_error [''tmp'', ''future.qza''] future_archive), None)
   \<and> fst (load raising_remove [''tmp'', ''future.qza''] example_world) = Inl (Raised ''remove'')
   \<and> example_uuid \<in> set (cache (snd (load raising_remove [''tmp'', ''future.qza''] example_world)))
   \<and> example_uuid \<notin> set (cache example_world)
   \<and> fst (load raising_rename [''tmp'', ''a.qza''] example_world) = Inl (Raised ''rename'')
   \<and> ''alias of '' @ example_uuid
       \<in> set (cache (snd (load raising_rename [''tmp'', ''a.qza''] example_world)))
   \<and> fst (from_data raising_rename example_uuid () example_world) = Inl (Raised ''rename'')
   \<and> ''alias of '' @ example_uuid
       \<in> set (cache (snd (from_data raising_rename example_uuid () example_world)))"
  by code_simp
end
